theory Spec2Isabelle
  imports Complex_Main
begin

section \<open>Exercise profiles\<close>

text \<open>
  The embedding follows \<^verbatim>\<open>src/ex.py\<close> (class \<^verbatim>\<open>ExercisePoseApp\<close>). Angles are Python/numpy
  floats in the source and real numbers here. The angle computation and the smoothing
  are modelled in exact arithmetic; the repetition tracking and the feedback only
  compare angles. The end-of-session score is an integer that depends on the rounding
  of each operation, so it is modelled in float64 arithmetic. The target angles of a
  profile are Python integers.
\<close>

record target_angles =
  angle_min :: int
  angle_max :: int
  angle_ideal :: int

record exercise =
  ex_name :: string
  keypoints :: "nat list"
  targets :: target_angles

definition bicep_curl :: exercise where
  "bicep_curl = \<lparr>ex_name = ''Bicep Curl'', keypoints = [11, 13, 15],
     targets = \<lparr>angle_min = 30, angle_max = 160, angle_ideal = 90\<rparr>\<rparr>"

definition push_up :: exercise where
  "push_up = \<lparr>ex_name = ''Push-Up'', keypoints = [11, 13, 15, 23, 25, 27],
     targets = \<lparr>angle_min = 80, angle_max = 160, angle_ideal = 90\<rparr>\<rparr>"

definition squat :: exercise where
  "squat = \<lparr>ex_name = ''Squat'', keypoints = [23, 25, 27],
     targets = \<lparr>angle_min = 70, angle_max = 170, angle_ideal = 110\<rparr>\<rparr>"

definition shoulder_press :: exercise where
  "shoulder_press = \<lparr>ex_name = ''Shoulder Press'', keypoints = [11, 13, 15],
     targets = \<lparr>angle_min = 60, angle_max = 170, angle_ideal = 160\<rparr>\<rparr>"

text \<open>The dictionary \<^verbatim>\<open>self.exercise_data\<close>, keyed by the exercise identifier.\<close>

definition exercise_data :: "string \<rightharpoonup> exercise" where
  "exercise_data =
     [''bicep curl'' \<mapsto> bicep_curl, ''push-up'' \<mapsto> push_up,
      ''squat'' \<mapsto> squat, ''shoulder press'' \<mapsto> shoulder_press]"

datatype py_error = KeyError | IndexError

section \<open>Angle computation\<close>

text \<open>
  \<^verbatim>\<open>numpy.arctan2(y, x)\<close> on finite arguments: the angle of the point \<open>(x, y)\<close> in
  \<open>(-\<pi>, \<pi>]\<close>, and \<open>0\<close> at the origin. (The library function is not part of the
  repository; this is its documented value, without signed zeros.)
\<close>

definition arctan2 :: "real \<Rightarrow> real \<Rightarrow> real" where
  "arctan2 y x =
     (if 0 < x then arctan (y / x)
      else if x < 0 then (if 0 \<le> y then arctan (y / x) + pi else arctan (y / x) - pi)
      else if 0 < y then pi / 2
      else if y < 0 then - (pi / 2)
      else 0)"

type_synonym point = "real \<times> real"

definition calculate_angle :: "point \<Rightarrow> point \<Rightarrow> point \<Rightarrow> real" where
  "calculate_angle a b c =
     (let radians = arctan2 (snd c - snd b) (fst c - fst b)
                    - arctan2 (snd a - snd b) (fst a - fst b);
          angle = \<bar>radians * 180 / pi\<bar>
      in if angle > 180 then 360 - angle else angle)"

section \<open>Smoothing buffer\<close>

text \<open>\<^verbatim>\<open>deque(maxlen=n).append(x)\<close>: once \<open>n\<close> items are held, the leftmost is discarded.\<close>

definition deque_append :: "nat \<Rightarrow> 'a list \<Rightarrow> 'a \<Rightarrow> 'a list" where
  "deque_append maxlen buf x =
     (if maxlen = 0 then []
      else if length buf < maxlen then buf @ [x]
      else tl buf @ [x])"

text \<open>\<^verbatim>\<open>sum(self.angle_buffer) / len(self.angle_buffer)\<close>, only evaluated after an append.\<close>

definition buffer_average :: "real list \<Rightarrow> real" where
  "buffer_average buf = sum_list buf / real (length buf)"

section \<open>Session state and repetition tracking\<close>

text \<open>
  The strings \<^verbatim>\<open>"up"\<close>, \<^verbatim>\<open>"down"\<close> and \<^verbatim>\<open>"none"\<close>; the initial Python \<^verbatim>\<open>None\<close>
  of \<^verbatim>\<open>direction\<close> is the \<open>None\<close> of the option type.
\<close>

datatype direction = Up | Down | NoDir

text \<open>
  The fields of the application object that a session uses, together with the three
  local variables of \<^verbatim>\<open>process_camera_feed\<close> (\<^verbatim>\<open>prev_angle\<close>, \<^verbatim>\<open>direction\<close>,
  \<^verbatim>\<open>rep_counted\<close>).
\<close>

record session =
  current_exercise :: string
  angle_buffer :: "real list"
  session_reps :: nat
  session_angles :: "real list"
  session_feedback :: "string list"
  prev_angle :: "real option"
  direction :: "direction option"
  rep_counted :: bool

text \<open>\<^verbatim>\<open>start_camera\<close> followed by the initialisation of the loop's locals.\<close>

definition start_camera :: "string \<Rightarrow> session" where
  "start_camera e =
     \<lparr>current_exercise = e, angle_buffer = [], session_reps = 0, session_angles = [],
      session_feedback = [], prev_angle = None, direction = None, rep_counted = False\<rparr>"

text \<open>The shared body of a detection rule: count once, then wait for the reset.\<close>

definition register_rep :: "session \<Rightarrow> session" where
  "register_rep s =
     (if \<not> rep_counted s then s\<lparr>session_reps := session_reps s + 1, rep_counted := True\<rparr>
      else s)"

text \<open>Lines 903--958: the repetition tracking for one smoothed angle.\<close>

definition track_rep :: "target_angles \<Rightarrow> real \<Rightarrow> session \<Rightarrow> session" where
  "track_rep t avg_angle s =
     (case prev_angle s of
        None \<Rightarrow> s\<lparr>direction := Some NoDir, prev_angle := Some avg_angle\<rparr>
      | Some prev \<Rightarrow>
          (let current_direction = (if avg_angle > prev then Up else Down);
               s1 =
                (if current_exercise s = ''bicep curl'' then
                   (if direction s = Some Down \<and> current_direction = Up
                       \<and> prev < real_of_int (angle_min t + 10)
                    then register_rep s
                    else if avg_angle > real_of_int (angle_max t - 20)
                    then s\<lparr>rep_counted := False\<rparr> else s)
                 else if current_exercise s = ''push-up'' then
                   (if direction s = Some Up \<and> current_direction = Down
                       \<and> prev > real_of_int (angle_max t - 20)
                    then register_rep s
                    else if avg_angle < real_of_int (angle_min t + 20)
                    then s\<lparr>rep_counted := False\<rparr> else s)
                 else if current_exercise s = ''squat'' then
                   (if direction s = Some Up \<and> current_direction = Down
                       \<and> prev > real_of_int (angle_max t - 20)
                    then register_rep s
                    else if avg_angle < real_of_int (angle_min t + 20)
                    then s\<lparr>rep_counted := False\<rparr> else s)
                 else if current_exercise s = ''shoulder press'' then
                   (if direction s = Some Down \<and> current_direction = Up
                       \<and> prev > real_of_int (angle_max t - 10)
                    then register_rep s
                    else if avg_angle < real_of_int (angle_min t + 10)
                    then s\<lparr>rep_counted := False\<rparr> else s)
                 else s)
           in s1\<lparr>direction := Some current_direction, prev_angle := Some avg_angle\<rparr>))"

section \<open>Feedback\<close>

definition generate_feedback :: "real \<Rightarrow> target_angles \<Rightarrow> string \<Rightarrow> string" where
  "generate_feedback angle t exercise_type =
     (if exercise_type = ''bicep curl'' then
        (if angle > real_of_int (angle_max t - 10) then ''Extend more''
         else if angle < real_of_int (angle_min t + 10) then ''Curl Complete''
         else ''Good Form'')
      else if exercise_type = ''push-up'' then
        (if angle > real_of_int (angle_max t - 10) then ''Keep body straight''
         else if angle < real_of_int (angle_min t + 10) then ''Good Form''
         else ''Adjust your posture'')
      else if exercise_type = ''squat'' then
        (if angle < real_of_int (angle_min t + 10) then ''Too Low''
         else if angle > real_of_int (angle_max t - 10) then ''Stand Up Straight''
         else ''Good Squat'')
      else if exercise_type = ''shoulder press'' then
        (if angle > real_of_int (angle_max t - 10) then ''Locked Out''
         else if angle < real_of_int (angle_min t + 10) then ''Push Higher''
         else ''Good Form'')
      else ''No feedback available'')"

text \<open>Python's \<^verbatim>\<open>sub in s\<close> on strings.\<close>

fun py_in :: "string \<Rightarrow> string \<Rightarrow> bool" where
  "py_in sub [] = (sub = [])"
| "py_in sub (c # cs) = (take (length sub) (c # cs) = sub \<or> py_in sub cs)"

text \<open>
  Line 965: the colour of the feedback box, by the theme key it selects. A feedback
  text containing \<^verbatim>\<open>Good\<close> is shown as a success.
\<close>

definition feedback_color :: "string \<Rightarrow> string" where
  "feedback_color feedback =
     (if py_in ''Good'' feedback then ''success''
      else if py_in ''Complete'' feedback then ''warning''
      else ''error'')"

section \<open>The frame loop\<close>

text \<open>Python's \<^verbatim>\<open>xs[i]\<close> for a non-negative index.\<close>

definition py_index :: "'a list \<Rightarrow> nat \<Rightarrow> py_error + 'a" where
  "py_index xs i = (if i < length xs then Inr (xs ! i) else Inl IndexError)"

text \<open>
  One iteration of the loop of \<^verbatim>\<open>process_camera_feed\<close>. The frame is \<open>None\<close> when the
  pose estimator found no landmarks, and otherwise the list of landmark pixel
  coordinates. Drawing and the widget updates are left out. \<open>process_angle\<close> is the
  part of the iteration from line 881 on, after the raw angle has been computed.
\<close>

definition process_angle :: "exercise \<Rightarrow> real \<Rightarrow> session \<Rightarrow> session" where
  "process_angle ex angle s =
     (let buf = deque_append 10 (angle_buffer s) angle;
          avg_angle = buffer_average buf;
          s1 = s\<lparr>angle_buffer := buf, session_angles := session_angles s @ [avg_angle]\<rparr>;
          s2 = track_rep (targets ex) avg_angle s1;
          feedback = generate_feedback avg_angle (targets ex) (current_exercise s)
      in s2\<lparr>session_feedback := session_feedback s2 @ [feedback]\<rparr>)"

definition process_frame :: "session \<Rightarrow> point list option \<Rightarrow> py_error + session" where
  "process_frame s frame =
     (case frame of
        None \<Rightarrow> Inr s
      | Some landmarks \<Rightarrow>
          (case exercise_data (current_exercise s) of
             None \<Rightarrow> Inl KeyError
           | Some ex \<Rightarrow>
               (if length (keypoints ex) \<ge> 3 then
                  (case py_index landmarks (keypoints ex ! 0) of
                     Inl e \<Rightarrow> Inl e
                   | Inr a \<Rightarrow>
                  (case py_index landmarks (keypoints ex ! 1) of
                     Inl e \<Rightarrow> Inl e
                   | Inr b \<Rightarrow>
                  (case py_index landmarks (keypoints ex ! 2) of
                     Inl e \<Rightarrow> Inl e
                   | Inr c \<Rightarrow> Inr (process_angle ex (calculate_angle a b c) s))))
                else Inr s)))"

fun process_camera_feed :: "session \<Rightarrow> point list option list \<Rightarrow> py_error + session" where
  "process_camera_feed s [] = Inr s"
| "process_camera_feed s (frame # frames) =
     (case process_frame s frame of
        Inl e \<Rightarrow> Inl e
      | Inr s' \<Rightarrow> process_camera_feed s' frames)"

text \<open>
  Feeding a sequence of smoothed angles directly to the repetition tracking, as the
  loop does with each \<^verbatim>\<open>avg_angle\<close>.
\<close>

fun feed_angles :: "target_angles \<Rightarrow> session \<Rightarrow> real list \<Rightarrow> session" where
  "feed_angles t s [] = s"
| "feed_angles t s (x # xs) = feed_angles t (track_rep t x s) xs"

section \<open>Float64 arithmetic\<close>

text \<open>
  The result of an arithmetic operation on float64 values is the exact result rounded
  to the nearest float64, ties to the even significand. \<open>float64\<close> is this rounding:
  53 significant bits, and below \<open>2^(-1022)\<close> the fixed spacing \<open>2^(-1074)\<close> of the subnormal
  numbers. Overflow to infinity (from \<open>2^1024\<close> on) is not modelled; the quantities of a
  session stay far below it.
\<close>

definition round_even :: "real \<Rightarrow> int" where
  "round_even x =
     (let f = \<lfloor>x\<rfloor> in
      if x - of_int f < 1 / 2 then f
      else if 1 / 2 < x - of_int f then f + 1
      else if even f then f else f + 1)"

definition ulp_exponent :: "real \<Rightarrow> int" where
  "ulp_exponent x = max \<lfloor>log 2 \<bar>x\<bar>\<rfloor> (- 1022) - 52"

definition float64 :: "real \<Rightarrow> real" where
  "float64 x =
     of_int (round_even (x / 2 powr of_int (ulp_exponent x))) * 2 powr of_int (ulp_exponent x)"

text \<open>A Python integer operand of a float operation is converted to float64 first.\<close>

definition py_float :: "int \<Rightarrow> real" where
  "py_float i = float64 (real_of_int i)"

section \<open>End of session\<close>

text \<open>
  The recorded angles are numpy float64 scalars (the result of \<^verbatim>\<open>np.abs\<close>, summed and
  divided in line 882), so \<^verbatim>\<open>abs(angle - target) / max_deviation\<close> is a numpy division:
  with a zero divisor it does not raise, it warns and yields \<^verbatim>\<open>inf\<close>, or \<^verbatim>\<open>nan\<close> for
  \<^verbatim>\<open>0/0\<close>.
\<close>

datatype np_float = Finite real | Inf | NaN

definition np_divide :: "real \<Rightarrow> int \<Rightarrow> np_float" where
  "np_divide x d =
     (if d \<noteq> 0 then Finite (float64 (x / py_float d))
      else if x = 0 then NaN
      else Inf)"

text \<open>
  \<^verbatim>\<open>min(1.0, deviation)\<close>: Python's \<^verbatim>\<open>min\<close> keeps its first argument unless a later one
  compares smaller, and no comparison with \<^verbatim>\<open>nan\<close> holds. (The dividend is an absolute
  value, so a negative infinity does not arise.)
\<close>

definition py_min_one :: "np_float \<Rightarrow> real" where
  "py_min_one d = (case d of Finite r \<Rightarrow> (if r < 1 then r else 1) | Inf \<Rightarrow> 1 | NaN \<Rightarrow> 1)"

text \<open>Python's \<^verbatim>\<open>int(x)\<close> on a float: truncation towards zero.\<close>

definition py_int :: "real \<Rightarrow> int" where
  "py_int x = (if 0 \<le> x then \<lfloor>x\<rfloor> else \<lceil>x\<rceil>)"

text \<open>
  Python's \<^verbatim>\<open>sum\<close>: it starts from the integer 0 and adds the items from left to right,
  each addition rounded. (The compensated summation of recent Python versions applies
  to plain Python floats only; in the list of deviations these are the entries \<open>1.0\<close>,
  and sums of them are exact.)
\<close>

definition py_sum :: "real list \<Rightarrow> real" where
  "py_sum xs = foldl (\<lambda>acc x. float64 (acc + x)) 0 xs"

text \<open>Lines 1053--1063 of \<^verbatim>\<open>save_session\<close>, for a non-empty list of recorded angles.\<close>

definition max_deviation :: "target_angles \<Rightarrow> int" where
  "max_deviation t = max (angle_ideal t - angle_min t) (angle_max t - angle_ideal t)"

definition deviations :: "target_angles \<Rightarrow> real list \<Rightarrow> real list" where
  "deviations t recorded =
     map (\<lambda>angle. py_min_one (np_divide \<bar>float64 (angle - py_float (angle_ideal t))\<bar>
                                (max_deviation t)))
       recorded"

definition performance_score :: "target_angles \<Rightarrow> real list \<Rightarrow> int" where
  "performance_score t recorded =
     (let avg_deviation =
            float64 (py_sum (deviations t recorded)
                     / py_float (int (length (deviations t recorded))))
      in py_int (float64 (float64 (1 - avg_deviation) * 100)))"

record session_record =
  date :: string
  exercise_name :: string
  duration :: int
  reps :: nat
  performance :: int
  angles :: "real list"

text \<open>
  \<^verbatim>\<open>save_session\<close>: \<open>Inr None\<close> is the early return on a session without angles,
  \<open>Inr (Some r)\<close> the record that is appended to the stored activities. The current
  time, already formatted, is a parameter.
\<close>

definition save_session :: "session \<Rightarrow> int \<Rightarrow> string \<Rightarrow> py_error + session_record option" where
  "save_session s dur now =
     (if session_angles s = [] then Inr None
      else case exercise_data (current_exercise s) of
             None \<Rightarrow> Inl KeyError
           | Some ex \<Rightarrow>
               Inr (Some \<lparr>date = now, exercise_name = ex_name ex, duration = dur div 60,
                          reps = session_reps s,
                          performance = performance_score (targets ex) (session_angles s),
                          angles = take 100 (session_angles s)\<rparr>))"

section \<open>The score as the specification words it\<close>

text \<open>
  The deviation of one sample and the performance score in the words of the
  specification: \<open>min(1.0, |angle - ideal| / max_deviation)\<close>, and
  \<open>round((1 - mean(deviation)) \<cdot> 100)\<close> clamped to \<open>[0, 100]\<close>, in exact arithmetic. They
  are compared with \<open>deviations\<close> and \<open>performance_score\<close>, which follow the source.
\<close>

definition spec_deviation :: "target_angles \<Rightarrow> real \<Rightarrow> real" where
  "spec_deviation t angle =
     min 1 (\<bar>angle - real_of_int (angle_ideal t)\<bar> / real_of_int (max_deviation t))"

definition spec_performance_score :: "target_angles \<Rightarrow> real list \<Rightarrow> int" where
  "spec_performance_score t recorded =
     max 0 (min 100 (round ((1 - sum_list (map (spec_deviation t) recorded) / real (length recorded)) * 100)))"

section \<open>Shapes of input used in the properties\<close>

text \<open>
  A bicep-curl cycle with noise: it starts at 160, stays at or above 40 during the
  descent \<open>H1\<close>, reaches a first sample \<open>m0\<close> below 40, moves around the bottom turning
  point without exceeding 140 (\<open>M\<close>), and returns through samples at or above 40 (\<open>H2\<close>)
  to 160. Within these bounds the samples may rise and fall in any order. A sequence
  that descends from 160 to 35 and comes back up to 160 has this shape as long as it
  does not swing from above 140 to below 40 a second time.
\<close>

definition noisy_cycle :: "real list \<Rightarrow> real \<Rightarrow> real list \<Rightarrow> real list \<Rightarrow> real list" where
  "noisy_cycle H1 m0 M H2 = 160 # H1 @ m0 # M @ H2 @ [160]"

text \<open>
  The two states of the repetition tracking around the bottom turning point of a cycle
  that started with \<open>n\<close> repetitions: the reversal has not been seen yet, or it has been
  counted.
\<close>

definition pending :: "session \<Rightarrow> nat \<Rightarrow> bool" where
  "pending s n \<longleftrightarrow>
     current_exercise s = ''bicep curl'' \<and> (\<exists>q. prev_angle s = Some q \<and> q < 40)
     \<and> direction s = Some Down \<and> \<not> rep_counted s \<and> session_reps s = n"

definition counted_once :: "session \<Rightarrow> nat \<Rightarrow> bool" where
  "counted_once s n \<longleftrightarrow>
     current_exercise s = ''bicep curl'' \<and> (\<exists>q. prev_angle s = Some q)
     \<and> rep_counted s \<and> session_reps s = Suc n"

text \<open>The number of frames in which the pose estimator found landmarks.\<close>

definition valid_frames :: "point list option list \<Rightarrow> nat" where
  "valid_frames frames = length (filter (\<lambda>f. f \<noteq> None) frames)"

section \<open>Sample inputs\<close>

text \<open>A squat session in which 101 smoothed angles \<open>0, 1, \<dots>, 100\<close> were recorded.\<close>

definition long_session :: session where
  "long_session = (start_camera ''squat'')\<lparr>session_angles := map real [0..<101]\<rparr>"

text \<open>Samples of a noisy cycle, and two clean cycles in a row.\<close>

definition noisy_descent :: "real list" where
  "noisy_descent = [150, 120, 90, 60, 45, 41, 43]"

definition noisy_bottom :: "real list" where
  "noisy_bottom = [35, 36, 34, 37, 41, 39, 60, 100, 130]"

definition noisy_top :: "real list" where
  "noisy_top = [150, 148, 155]"

definition short_cycles :: "real list" where
  "short_cycles = [160, 35, 160, 160, 35, 160]"

text \<open>A frame in which all 33 landmarks are at the origin.\<close>

definition still_pose :: "point list" where
  "still_pose = replicate 33 (0, 0)"

section \<open>Properties of the feedback classifier\<close>

lemmas profile_defs = bicep_curl_def push_up_def squat_def shoulder_press_def

text \<open>
  C1, as the specification states it, fails on the push-up profile: the angle 120 lies
  within \<open>[angle_min + 10, angle_max - 10] = [90, 150]\<close>, and the feedback is
  \<^verbatim>\<open>Adjust your posture\<close>, which the feedback box shows as an error, not as a success.
\<close>

theorem push_up_band_not_good:
  "exercise_data ''push-up'' = Some push_up
   \<and> real_of_int (angle_min (targets push_up) + 10) \<le> 120
   \<and> (120 :: real) \<le> real_of_int (angle_max (targets push_up) - 10)
   \<and> generate_feedback 120 (targets push_up) ''push-up'' = ''Adjust your posture''
   \<and> feedback_color (generate_feedback 120 (targets push_up) ''push-up'') = ''error''"
  by (simp add: exercise_data_def profile_defs generate_feedback_def feedback_color_def)

text \<open>
  C1 (amended): for the bicep curl, the squat and the shoulder press, an angle within
  \<open>[angle_min + 10, angle_max - 10]\<close> (both bounds included) yields that exercise's Good
  text, an angle above \<open>angle_max - 10\<close> its extended or locked-out text, and an angle
  below \<open>angle_min + 10\<close> its flexed or complete text. For the push-up, an angle above
  \<open>angle_max - 10\<close> yields \<^verbatim>\<open>Keep body straight\<close>, an angle below \<open>angle_min + 10\<close> yields
  \<^verbatim>\<open>Good Form\<close>, and an angle within the band yields \<^verbatim>\<open>Adjust your posture\<close>. On the
  bicep curl, 95 yields \<^verbatim>\<open>Good Form\<close>, 155 \<^verbatim>\<open>Extend more\<close> and 35 \<^verbatim>\<open>Curl Complete\<close>.
\<close>

theorem generate_feedback_bands:
  fixes a :: real
  shows
  "(\<forall>e ex. e \<in> {''bicep curl'', ''squat'', ''shoulder press''} \<and> exercise_data e = Some ex \<longrightarrow>
      (real_of_int (angle_min (targets ex) + 10) \<le> a \<and> a \<le> real_of_int (angle_max (targets ex) - 10)
         \<longrightarrow> generate_feedback a (targets ex) e =
               (if e = ''squat'' then ''Good Squat'' else ''Good Form'')
             \<and> feedback_color (generate_feedback a (targets ex) e) = ''success'')
    \<and> (a > real_of_int (angle_max (targets ex) - 10)
         \<longrightarrow> generate_feedback a (targets ex) e =
               (if e = ''bicep curl'' then ''Extend more''
                else if e = ''squat'' then ''Stand Up Straight'' else ''Locked Out''))
    \<and> (a < real_of_int (angle_min (targets ex) + 10)
         \<longrightarrow> generate_feedback a (targets ex) e =
               (if e = ''bicep curl'' then ''Curl Complete''
                else if e = ''squat'' then ''Too Low'' else ''Push Higher'')))
   \<and> (a > real_of_int (angle_max (targets push_up) - 10)
         \<longrightarrow> generate_feedback a (targets push_up) ''push-up'' = ''Keep body straight'')
   \<and> (a < real_of_int (angle_min (targets push_up) + 10)
         \<longrightarrow> generate_feedback a (targets push_up) ''push-up'' = ''Good Form'')
   \<and> (real_of_int (angle_min (targets push_up) + 10) \<le> a
        \<and> a \<le> real_of_int (angle_max (targets push_up) - 10)
         \<longrightarrow> generate_feedback a (targets push_up) ''push-up'' = ''Adjust your posture'')
   \<and> generate_feedback 95 (targets bicep_curl) ''bicep curl'' = ''Good Form''
   \<and> generate_feedback 155 (targets bicep_curl) ''bicep curl'' = ''Extend more''
   \<and> generate_feedback 35 (targets bicep_curl) ''bicep curl'' = ''Curl Complete''"
  by (auto simp: exercise_data_def profile_defs generate_feedback_def feedback_color_def
           split: if_splits)

theorem generate_feedback_bands_witness:
  "''squat'' \<in> {''bicep curl'', ''squat'', ''shoulder press''}
   \<and> exercise_data ''squat'' = Some squat
   \<and> real_of_int (angle_min (targets squat) + 10) \<le> 80
   \<and> (80 :: real) \<le> real_of_int (angle_max (targets squat) - 10)
   \<and> generate_feedback 80 (targets squat) ''squat'' = ''Good Squat''
   \<and> (175 :: real) > real_of_int (angle_max (targets squat) - 10)
   \<and> generate_feedback 175 (targets squat) ''squat'' = ''Stand Up Straight''
   \<and> (60 :: real) < real_of_int (angle_min (targets squat) + 10)
   \<and> generate_feedback 60 (targets squat) ''squat'' = ''Too Low''
   \<and> (85 :: real) < real_of_int (angle_min (targets push_up) + 10)
   \<and> generate_feedback 85 (targets push_up) ''push-up'' = ''Good Form''"
proof -
  have key: "exercise_data ''squat'' = Some squat"
    by (simp add: exercise_data_def)
  have bounds: "angle_min (targets squat) = 70" "angle_max (targets squat) = 170"
    "angle_min (targets push_up) = 80"
    by (simp_all add: profile_defs)
  from generate_feedback_bands [of 80] key bounds
  have good: "generate_feedback 80 (targets squat) ''squat'' = ''Good Squat''"
    by simp
  from generate_feedback_bands [of 175] key bounds
  have high: "generate_feedback 175 (targets squat) ''squat'' = ''Stand Up Straight''"
    by simp
  from generate_feedback_bands [of 60] key bounds
  have low: "generate_feedback 60 (targets squat) ''squat'' = ''Too Low''"
    by simp
  from generate_feedback_bands [of 85] bounds
  have pu: "generate_feedback 85 (targets push_up) ''push-up'' = ''Good Form''"
    by simp
  show ?thesis
    using key bounds good high low pu by simp
qed

section \<open>Properties of the session record\<close>

text \<open>
  C4, as the specification states it, fails: of 101 recorded angles \<open>0, \<dots>, 100\<close> the
  record keeps \<open>0, \<dots>, 99\<close>, the earliest hundred, and not the most recent hundred
  \<open>1, \<dots>, 100\<close>.
\<close>

theorem save_session_keeps_earliest:
  "length (session_angles long_session) = 101
   \<and> map_sum id (map_option angles) (save_session long_session 0 ''2026-01-01 10:00'')
       = Inr (Some (map real [0..<100]))
   \<and> drop (101 - 100) (session_angles long_session) = map real [1..<101]
   \<and> map real [0..<100] \<noteq> map real [1..<101]"
proof -
  have a: "take 100 (map real [0..<101]) = map real [0..<100]"
    by (simp add: take_map)
  have b: "map real [0..<100] \<noteq> map real [1..<101]"
  proof
    assume "map real [0..<100] = map real [1..<101]"
    then have "map real [0..<100] ! 0 = map real [1..<101] ! 0"
      by (rule arg_cong)
    then show False by simp
  qed
  have c: "session_angles long_session = map real [0..<101]"
    by (simp add: long_session_def start_camera_def)
  have d: "exercise_data (current_exercise long_session) = Some squat"
    by (simp add: long_session_def start_camera_def exercise_data_def)
  have e: "map real [0..<101] \<noteq> []"
    by (simp add: upt_conv_Cons)
  have f: "drop (101 - 100) (map real [0..<101]) = map real [1..<101]"
    by (simp add: drop_map)
  have g: "map_sum id (map_option angles) (save_session long_session 0 ''2026-01-01 10:00'')
       = Inr (Some (map real [0..<100]))"
    unfolding save_session_def c using a d e by simp
  show ?thesis
    using b g f unfolding c by simp
qed

text \<open>
  C4 (amended): a session with at least one recorded angle and a known exercise
  produces a record whose \<open>angles\<close> field is the first (earliest) 100 recorded smoothed
  angles, in recording order, and all of them when 100 or fewer were recorded.
\<close>

theorem save_session_angles_first_100:
  assumes "session_angles s \<noteq> []" and "exercise_data (current_exercise s) = Some ex"
  shows "\<exists>r. save_session s dur now = Inr (Some r)
           \<and> angles r = take 100 (session_angles s)
           \<and> length (angles r) = min 100 (length (session_angles s))
           \<and> (\<forall>i < length (angles r). angles r ! i = session_angles s ! i)
           \<and> (length (session_angles s) \<le> 100 \<longrightarrow> angles r = session_angles s)"
  using assms by (simp add: save_session_def)

theorem save_session_angles_first_100_witness:
  "session_angles long_session \<noteq> []
   \<and> exercise_data (current_exercise long_session) = Some squat
   \<and> (\<exists>r. save_session long_session 0 [] = Inr (Some r)
          \<and> angles r = take 100 (session_angles long_session)
          \<and> length (angles r) = 100)"
proof -
  have c: "session_angles long_session \<noteq> []"
    by (simp add: long_session_def start_camera_def upt_conv_Cons)
  have d: "exercise_data (current_exercise long_session) = Some squat"
    by (simp add: long_session_def start_camera_def exercise_data_def)
  have l: "length (session_angles long_session) = 101"
    by (simp add: long_session_def start_camera_def)
  from save_session_angles_first_100 [OF c d, of 0 "[]"] l
  show ?thesis using c d by auto
qed

section \<open>Properties of the smoothing buffer\<close>

lemma deque_append_drop:
  assumes "0 < n" "length buf \<le> n"
  shows "deque_append n buf x = drop (length buf + 1 - n) (buf @ [x])"
proof (cases "length buf < n")
  case True
  then show ?thesis using assms by (simp add: deque_append_def)
next
  case False
  with assms have len: "length buf = n" by simp
  with assms obtain b bs where buf: "buf = b # bs" by (cases buf) auto
  show ?thesis using assms len by (simp add: deque_append_def buf)
qed

lemma foldl_deque_append:
  assumes "0 < n"
  shows "length buf \<le> n \<Longrightarrow>
    foldl (deque_append n) buf xs = drop (length buf + length xs - n) (buf @ xs)"
proof (induction xs arbitrary: buf)
  case Nil
  then show ?case by simp
next
  case (Cons x xs)
  let ?b = "deque_append n buf x"
  have b: "?b = drop (length buf + 1 - n) (buf @ [x])"
    using assms Cons.prems by (rule deque_append_drop)
  then have lb: "length ?b = min n (length buf + 1)"
    using Cons.prems by auto
  then have "length ?b \<le> n" by simp
  then have "foldl (deque_append n) ?b xs = drop (length ?b + length xs - n) (?b @ xs)"
    by (rule Cons.IH)
  also have "\<dots> = drop (length buf + length (x # xs) - n) (buf @ x # xs)"
  proof (cases "length buf < n")
    case True
    then show ?thesis using b lb by simp
  next
    case False
    with Cons.prems have len: "length buf = n" by simp
    with assms obtain c cs where buf: "buf = c # cs" by (cases buf) auto
    show ?thesis using b lb len assms by (simp add: buf)
  qed
  finally show ?case by simp
qed

lemma track_rep_keeps:
  "angle_buffer (track_rep t a s) = angle_buffer s"
  "session_angles (track_rep t a s) = session_angles s"
  by (simp_all add: track_rep_def register_rep_def Let_def split: option.split)

lemma process_angle_buffer:
  "angle_buffer (process_angle ex x s) = deque_append 10 (angle_buffer s) x"
  "session_angles (process_angle ex x s) = session_angles s @ [buffer_average (deque_append 10 (angle_buffer s) x)]"
  by (simp_all add: process_angle_def Let_def track_rep_keeps)

text \<open>
  C7: after the raw samples \<open>xs\<close> have been appended to an empty buffer, the buffer holds
  the last \<open>min 10 (length xs)\<close> of them in arrival order (the oldest are evicted first),
  and the smoothed angle is the arithmetic mean of the held samples, also when fewer
  than 10 are held. Each frame appends its raw angle in this way and records the mean of
  the buffer as the smoothed angle. After the 11 values \<open>10, 20, \<dots>, 110\<close> the average is
  the mean of \<open>20, \<dots>, 110\<close>, which is 65.
\<close>

theorem smoothing_buffer_window:
  "foldl (deque_append 10) [] xs = drop (length xs - 10) xs
   \<and> length (foldl (deque_append 10) [] xs) = min 10 (length xs)
   \<and> (xs \<noteq> [] \<longrightarrow>
        buffer_average (foldl (deque_append 10) [] xs)
          = sum_list (drop (length xs - 10) xs) / real (min 10 (length xs)))
   \<and> (length buf = 10 \<longrightarrow> deque_append 10 buf x = tl buf @ [x])
   \<and> angle_buffer (process_angle ex x s) = deque_append 10 (angle_buffer s) x
   \<and> session_angles (process_angle ex x s)
        = session_angles s @ [buffer_average (angle_buffer (process_angle ex x s))]
   \<and> buffer_average (foldl (deque_append 10) [] [10, 20, 30, 40, 50, 60, 70, 80, 90, 100, 110])
        = buffer_average [20, 30, 40, 50, 60, 70, 80, 90, 100, 110]
   \<and> buffer_average [20, 30, 40, 50, 60, 70, 80, 90, 100, 110] = 65"
proof -
  have held: "foldl (deque_append 10) [] xs = drop (length xs - 10) xs"
    using foldl_deque_append [of 10 "[]" xs] by simp
  have len: "length (foldl (deque_append 10) [] xs) = min 10 (length xs)"
    unfolding held by auto
  have avg: "buffer_average (foldl (deque_append 10) [] xs)
          = sum_list (drop (length xs - 10) xs) / real (min 10 (length xs))"
    unfolding buffer_average_def len [symmetric] by (simp add: held)
  have full: "length buf = 10 \<longrightarrow> deque_append 10 buf x = tl buf @ [x]"
    by (simp add: deque_append_def)
  have ex11: "foldl (deque_append 10) [] [10, 20, 30, 40, 50, 60, 70, 80, 90, 100, 110 :: real]
               = [20, 30, 40, 50, 60, 70, 80, 90, 100, 110]"
    by (simp add: deque_append_def)
  have mean: "buffer_average [20, 30, 40, 50, 60, 70, 80, 90, 100, 110] = 65"
    by (simp add: buffer_average_def)
  show ?thesis
    using held len avg full ex11 mean by (simp add: process_angle_buffer)
qed

theorem smoothing_buffer_window_witness:
  "[3, 5 :: real] \<noteq> []
   \<and> buffer_average (foldl (deque_append 10) [] [3, 5]) = 4
   \<and> length [1, 2, 3, 4, 5, 6, 7, 8, 9, 10 :: real] = 10
   \<and> deque_append 10 [1, 2, 3, 4, 5, 6, 7, 8, 9, 10 :: real] 11
        = [2, 3, 4, 5, 6, 7, 8, 9, 10, 11]"
  using smoothing_buffer_window
          [of "[3, 5]" "[1, 2, 3, 4, 5, 6, 7, 8, 9, 10]" 11 bicep_curl "start_camera []"]
  by (simp add: deque_append_def buffer_average_def)

section \<open>Properties of the angle computation\<close>

lemma arctan2_bounds: "- pi < arctan2 y x \<and> arctan2 y x \<le> pi"
proof -
  have lb: "- (pi / 2) < arctan (y / x)" and ub: "arctan (y / x) < pi / 2"
    by (rule arctan_lbound, rule arctan_ubound)
  have pos: "0 < pi" by (rule pi_gt_zero)
  consider "0 < x" | "x < 0" "0 \<le> y" | "x < 0" "y < 0" | "x = 0" by linarith
  then show ?thesis
  proof cases
    case 1
    then show ?thesis using lb ub pos by (simp add: arctan2_def)
  next
    case 2
    then have "y / x \<le> 0" by (simp add: divide_nonneg_neg)
    then have "arctan (y / x) \<le> 0" using arctan_le_zero_iff by blast
    then show ?thesis using 2 lb pos unfolding arctan2_def by (simp, linarith)
  next
    case 3
    then have "0 < y / x" by (simp add: divide_neg_neg)
    then have "0 < arctan (y / x)" using zero_less_arctan_iff by blast
    then show ?thesis using 3 ub pos unfolding arctan2_def by (simp, linarith)
  next
    case 4
    have "- (pi / 2) \<le> pi" using pos by linarith
    then show ?thesis using 4 unfolding arctan2_def by simp
  qed
qed

text \<open>
  C8: \<open>calculate_angle\<close> has no error case, and for all coordinates its value lies in
  \<open>[0, 180]\<close>; it is \<open>\<bar>atan2 (c.y - b.y) (c.x - b.x) - atan2 (a.y - b.y) (a.x - b.x)\<bar> \<cdot> 180 / \<pi>\<close>,
  replaced by 360 minus that value when it exceeds 180.
\<close>

theorem calculate_angle_range:
  "0 \<le> calculate_angle a b c \<and> calculate_angle a b c \<le> 180
   \<and> calculate_angle a b c =
       (let angle = \<bar>(arctan2 (snd c - snd b) (fst c - fst b)
                       - arctan2 (snd a - snd b) (fst a - fst b)) * 180 / pi\<bar>
        in if angle > 180 then 360 - angle else angle)"
proof -
  define r where "r = arctan2 (snd c - snd b) (fst c - fst b) - arctan2 (snd a - snd b) (fst a - fst b)"
  have pos: "0 < pi" by (rule pi_gt_zero)
  have "\<bar>r\<bar> < 2 * pi"
    using arctan2_bounds [of "snd c - snd b" "fst c - fst b"]
          arctan2_bounds [of "snd a - snd b" "fst a - fst b"]
    unfolding r_def by linarith
  then have "\<bar>r\<bar> * 180 / pi < 360"
    using pos by (simp add: field_simps)
  moreover have "\<bar>r * 180 / pi\<bar> = \<bar>r\<bar> * 180 / pi"
    using pos by (simp add: abs_mult abs_divide)
  ultimately have lt: "\<bar>r * 180 / pi\<bar> < 360" by simp
  have ge: "0 \<le> \<bar>r * 180 / pi\<bar>" by simp
  show ?thesis
    using lt ge unfolding calculate_angle_def Let_def r_def [symmetric]
    by (simp split: if_splits)
qed

text \<open>C9: swapping the first and the third point does not change the angle.\<close>

theorem calculate_angle_sym: "calculate_angle a b c = calculate_angle c b a"
proof -
  define p where "p = arctan2 (snd c - snd b) (fst c - fst b)"
  define q where "q = arctan2 (snd a - snd b) (fst a - fst b)"
  have "(q - p) * 180 / pi = - ((p - q) * 180 / pi)"
    by (simp add: algebra_simps diff_divide_distrib)
  then have "\<bar>(p - q) * 180 / pi\<bar> = \<bar>(q - p) * 180 / pi\<bar>"
    by simp
  then show ?thesis
    unfolding calculate_angle_def Let_def p_def q_def by simp
qed

section \<open>Properties of float64 rounding\<close>

lemma round_even_of_int: "round_even (of_int n) = n"
  by (simp add: round_even_def)

lemma round_even_mono:
  assumes "x \<le> y"
  shows "round_even x \<le> round_even y"
proof (cases "\<lfloor>x\<rfloor> = \<lfloor>y\<rfloor>")
  case True
  then show ?thesis using assms by (auto simp: round_even_def Let_def)
next
  case False
  then have "\<lfloor>x\<rfloor> < \<lfloor>y\<rfloor>" using assms floor_mono [of x y] by linarith
  moreover have "round_even x \<le> \<lfloor>x\<rfloor> + 1" by (simp add: round_even_def Let_def)
  moreover have "\<lfloor>y\<rfloor> \<le> round_even y" by (simp add: round_even_def Let_def)
  ultimately show ?thesis by linarith
qed

lemma float64_zero: "float64 0 = 0"
  by (simp add: float64_def round_even_def)

lemma ulp_exponent_mono:
  assumes "0 < x" "x \<le> y"
  shows "ulp_exponent x \<le> ulp_exponent y"
proof -
  have "log 2 \<bar>x\<bar> \<le> log 2 \<bar>y\<bar>" using assms by simp
  then have "\<lfloor>log 2 \<bar>x\<bar>\<rfloor> \<le> \<lfloor>log 2 \<bar>y\<bar>\<rfloor>" by (rule floor_mono)
  then show ?thesis by (simp add: ulp_exponent_def)
qed

lemma binade_lower:
  assumes "0 < x"
  shows "2 powr of_int \<lfloor>log 2 x\<rfloor> \<le> x"
  using assms floor_log_eq_powr_iff [of x 2 "\<lfloor>log 2 x\<rfloor>"] by simp

lemma binade_upper:
  assumes "0 < x"
  shows "x < 2 powr of_int (\<lfloor>log 2 x\<rfloor> + 1)"
  using assms floor_log_eq_powr_iff [of x 2 "\<lfloor>log 2 x\<rfloor>"] by simp

lemma powr_int_integer:
  assumes "0 \<le> k"
  shows "(2::real) powr real_of_int k = real_of_int (2 ^ nat k)"
proof -
  have "(2::real) powr real_of_int k = 2 powr real (nat k)" using assms by simp
  also have "\<dots> = 2 ^ nat k" by (simp add: powr_realpow)
  finally show ?thesis by simp
qed

lemma float64_pos_mono:
  assumes "0 < x" "x \<le> y"
  shows "float64 x \<le> float64 y"
proof (cases "ulp_exponent x = ulp_exponent y")
  case True
  have "x / 2 powr of_int (ulp_exponent y) \<le> y / 2 powr of_int (ulp_exponent y)"
    using assms(2) by (simp add: divide_right_mono)
  then have "round_even (x / 2 powr of_int (ulp_exponent y))
               \<le> round_even (y / 2 powr of_int (ulp_exponent y))"
    by (rule round_even_mono)
  then show ?thesis unfolding float64_def True by simp
next
  case False
  define ex where "ex = ulp_exponent x"
  define ey where "ey = ulp_exponent y"
  have lt: "ex < ey" using False ulp_exponent_mono [OF assms] by (simp add: ex_def ey_def)
  have y: "0 < y" using assms by simp
  have ey: "ey = \<lfloor>log 2 y\<rfloor> - 52"
    using lt y assms(1) unfolding ex_def ey_def ulp_exponent_def
    by (simp add: max_def split: if_splits)
  define B :: real where "B = 2 powr of_int (ey + 52)"
  have By: "B \<le> y" unfolding B_def ey using binade_lower [OF y] by simp
  have "\<lfloor>log 2 x\<rfloor> + 1 \<le> ey + 52"
    using lt assms(1) unfolding ex_def ulp_exponent_def by simp
  then have "2 powr of_int (\<lfloor>log 2 x\<rfloor> + 1) \<le> B"
    unfolding B_def by simp
  then have xB: "x \<le> B" using binade_upper [OF assms(1)] by linarith
  have Bx: "B / 2 powr of_int ex = of_int (2 ^ nat (ey + 52 - ex))"
  proof -
    have "B / 2 powr of_int ex = 2 powr (of_int (ey + 52) - of_int ex)"
      unfolding B_def by (simp add: powr_diff)
    also have "\<dots> = 2 powr of_int (ey + 52 - ex)" by simp
    also have "\<dots> = of_int (2 ^ nat (ey + 52 - ex))"
      using lt by (intro powr_int_integer) simp
    finally show ?thesis .
  qed
  have "x / 2 powr of_int ex \<le> B / 2 powr of_int ex"
    using xB by (simp add: divide_right_mono)
  then have "round_even (x / 2 powr of_int ex) \<le> round_even (B / 2 powr of_int ex)"
    by (rule round_even_mono)
  then have "round_even (x / 2 powr of_int ex) \<le> 2 ^ nat (ey + 52 - ex)"
    unfolding Bx round_even_of_int .
  then have "real_of_int (round_even (x / 2 powr of_int ex)) \<le> B / 2 powr of_int ex"
    unfolding Bx by (simp only: of_int_le_iff)
  then have fx: "float64 x \<le> B"
    unfolding float64_def ex_def [symmetric] by (simp add: pos_le_divide_eq)
  have By': "B / 2 powr of_int ey = of_int (2 ^ 52)"
    unfolding B_def by (simp add: powr_add)
  have "B / 2 powr of_int ey \<le> y / 2 powr of_int ey"
    using By by (simp add: divide_right_mono)
  then have "round_even (B / 2 powr of_int ey) \<le> round_even (y / 2 powr of_int ey)"
    by (rule round_even_mono)
  then have "2 ^ 52 \<le> round_even (y / 2 powr of_int ey)"
    unfolding By' round_even_of_int .
  then have "B / 2 powr of_int ey \<le> real_of_int (round_even (y / 2 powr of_int ey))"
    unfolding By' by (simp only: of_int_le_iff)
  then have fy: "B \<le> float64 y"
    unfolding float64_def ey_def [symmetric] by (simp add: pos_divide_le_eq)
  show ?thesis using fx fy by linarith
qed

lemma float64_nonneg:
  assumes "0 \<le> x"
  shows "0 \<le> float64 x"
proof -
  have "0 \<le> x / 2 powr of_int (ulp_exponent x)" using assms by simp
  then have "round_even 0 \<le> round_even (x / 2 powr of_int (ulp_exponent x))"
    by (rule round_even_mono)
  then have "0 \<le> round_even (x / 2 powr of_int (ulp_exponent x))"
    using round_even_of_int [of 0] by simp
  then show ?thesis unfolding float64_def by simp
qed

lemma float64_mono:
  assumes "0 \<le> x" "x \<le> y"
  shows "float64 x \<le> float64 y"
proof (cases "x = 0")
  case True
  then show ?thesis using assms float64_nonneg [of y] by (simp add: float64_zero)
next
  case False
  then show ?thesis using assms by (intro float64_pos_mono) simp_all
qed

lemma float64_exact:
  assumes "x = of_int M * 2 powr of_int j" and "\<bar>M\<bar> < 2 ^ 53" and "- 1074 \<le> j"
  shows "float64 x = x"
proof (cases "x = 0")
  case True
  then show ?thesis by (simp add: float64_zero)
next
  case False
  define e where "e = ulp_exponent x"
  have ax: "0 < \<bar>x\<bar>" using False by simp
  have "\<bar>x\<bar> = \<bar>of_int M\<bar> * 2 powr of_int j" unfolding assms(1) by (simp add: abs_mult)
  also have "\<dots> < 2 ^ 53 * 2 powr of_int j"
  proof -
    have "\<bar>real_of_int M\<bar> < 2 ^ 53"
      using assms(2) by (metis of_int_abs of_int_less_iff of_int_numeral of_int_power)
    then show ?thesis by simp
  qed
  also have "\<dots> = 2 powr of_int (j + 53)"
  proof -
    have "(2::real) ^ 53 = 2 powr of_int 53" using powr_int_integer [of 53] by simp
    then show ?thesis by (simp add: powr_add)
  qed
  finally have "\<bar>x\<bar> < 2 powr of_int (j + 53)" .
  moreover have "2 powr of_int \<lfloor>log 2 \<bar>x\<bar>\<rfloor> \<le> \<bar>x\<bar>" using ax by (rule binade_lower)
  ultimately have "2 powr of_int \<lfloor>log 2 \<bar>x\<bar>\<rfloor> < (2::real) powr of_int (j + 53)" by linarith
  then have "\<lfloor>log 2 \<bar>x\<bar>\<rfloor> < j + 53" by simp
  then have ej: "e \<le> j" using assms(3) unfolding e_def ulp_exponent_def by simp
  have "x / 2 powr of_int e = of_int M * 2 powr (of_int j - of_int e)"
    unfolding assms(1) by (simp add: powr_diff)
  also have "\<dots> = of_int M * 2 powr of_int (j - e)" by simp
  also have "\<dots> = of_int M * of_int (2 ^ nat (j - e))"
    using ej by (simp only: powr_int_integer)
  also have "\<dots> = of_int (M * 2 ^ nat (j - e))" by simp
  finally have q: "x / 2 powr of_int e = of_int (M * 2 ^ nat (j - e))" .
  have "float64 x = of_int (M * 2 ^ nat (j - e)) * 2 powr of_int e"
    unfolding float64_def e_def [symmetric] q round_even_of_int ..
  also have "\<dots> = x / 2 powr of_int e * 2 powr of_int e" unfolding q ..
  also have "\<dots> = x" by simp
  finally show ?thesis .
qed

lemma ulp_exponent_eq:
  assumes "2 powr of_int k \<le> x" "x < 2 powr of_int (k + 1)" "- 1022 \<le> k"
  shows "ulp_exponent x = k - 52"
proof -
  have x: "0 < x" using assms(1) by (smt (verit) powr_gt_zero)
  then have "\<lfloor>log 2 x\<rfloor> = k"
    using assms(1,2) floor_log_eq_powr_iff [of x 2 k] by simp
  then show ?thesis using x assms(3) by (simp add: ulp_exponent_def)
qed

lemma float64_eval_ge1:
  assumes "2 ^ n \<le> x" "x < 2 ^ Suc n" "n \<le> 52"
  shows "float64 x = of_int (round_even (x * 2 ^ (52 - n))) / 2 ^ (52 - n)"
proof -
  have a: "2 powr of_int (int n) \<le> x"
    using assms(1) powr_int_integer [of "int n"] by simp
  have b: "x < 2 powr of_int (int n + 1)"
    using assms(2) powr_int_integer [of "int n + 1"] by (simp add: nat_add_distrib)
  have e: "ulp_exponent x = int n - 52"
    using a b by (intro ulp_exponent_eq) simp_all
  have p: "(2::real) powr of_int (int n - 52) = 1 / 2 ^ (52 - n)"
  proof -
    have "(2::real) powr of_int (int n - 52) = 2 powr (- of_int (int (52 - n)))"
      using assms(3) by simp
    also have "\<dots> = 1 / 2 powr of_int (int (52 - n))" by (simp add: powr_minus divide_inverse)
    also have "\<dots> = 1 / 2 ^ (52 - n)" using powr_int_integer [of "int (52 - n)"] by simp
    finally show ?thesis .
  qed
  show ?thesis unfolding float64_def e p by simp
qed

lemma float64_eval_lt1:
  assumes "1 / 2 ^ Suc n \<le> x" "x < 1 / 2 ^ n" "n \<le> 1021"
  shows "float64 x = of_int (round_even (x * 2 ^ (n + 53))) / 2 ^ (n + 53)"
proof -
  have q: "(2::real) powr (- of_int (int m)) = 1 / 2 ^ m" for m
  proof -
    have "(2::real) powr (- of_int (int m)) = 1 / 2 powr of_int (int m)"
      by (simp add: powr_minus divide_inverse)
    also have "\<dots> = 1 / 2 ^ m" using powr_int_integer [of "int m"] by simp
    finally show ?thesis .
  qed
  have a: "2 powr of_int (- int (Suc n)) \<le> x"
    using assms(1) q [of "Suc n"] by simp
  have b: "x < 2 powr of_int (- int (Suc n) + 1)"
    using assms(2) q [of n] by simp
  have e: "ulp_exponent x = - int (Suc n) - 52"
    using a b assms(3) by (intro ulp_exponent_eq) simp_all
  have p: "(2::real) powr of_int (- int (Suc n) - 52) = 1 / 2 ^ (n + 53)"
    using q [of "n + 53"] by (simp add: algebra_simps)
  show ?thesis unfolding float64_def e p by simp
qed

lemma float64_int:
  assumes "\<bar>k\<bar> \<le> 2 ^ 53"
  shows "float64 (of_int k) = of_int k"
proof (cases "\<bar>k\<bar> = 2 ^ 53")
  case True
  then have "k = 2 ^ 53 \<or> k = - (2 ^ 53)" by linarith
  then have "real_of_int k = of_int (k div 2) * 2 powr of_int 1 \<and> \<bar>k div 2\<bar> < 2 ^ 53"
    by auto
  then show ?thesis by (intro float64_exact [of _ "k div 2" 1]) simp_all
next
  case False
  then have "\<bar>k\<bar> < 2 ^ 53" using assms by linarith
  then show ?thesis by (intro float64_exact [of _ k 0]) simp_all
qed

lemma float64_dyadic:
  assumes "\<bar>M\<bar> < 2 ^ 53" "p \<le> 1074"
  shows "float64 (of_int M / 2 ^ p) = of_int M / 2 ^ p"
proof -
  have "(2::real) powr of_int (- int p) = 1 / 2 ^ p"
  proof -
    have "(2::real) powr of_int (- int p) = 1 / 2 powr of_int (int p)"
      by (simp add: powr_minus divide_inverse)
    also have "\<dots> = 1 / 2 ^ p" using powr_int_integer [of "int p"] by simp
    finally show ?thesis .
  qed
  then have "real_of_int M / 2 ^ p = of_int M * 2 powr of_int (- int p)" by simp
  then show ?thesis using assms by (intro float64_exact [of _ M "- int p"]) simp_all
qed

lemma float64_eval_ge52:
  assumes "2 ^ n \<le> x" "x < 2 ^ Suc n" "52 \<le> n"
  shows "float64 x = of_int (round_even (x / 2 ^ (n - 52))) * 2 ^ (n - 52)"
proof -
  have a: "2 powr of_int (int n) \<le> x"
    using assms(1) powr_int_integer [of "int n"] by simp
  have b: "x < 2 powr of_int (int n + 1)"
    using assms(2) powr_int_integer [of "int n + 1"] by (simp add: nat_add_distrib)
  have e: "ulp_exponent x = int n - 52"
    using a b by (intro ulp_exponent_eq) simp_all
  have p: "(2::real) powr of_int (int n - 52) = 2 ^ (n - 52)"
    using assms(3) powr_int_integer [of "int n - 52"] by (simp add: nat_diff_distrib)
  show ?thesis unfolding float64_def e p by simp
qed

lemma float64_tie: "float64 (2 ^ 53 + 1) = 2 ^ 53"
proof -
  have "float64 (2 ^ 53 + 1) = of_int (round_even ((2 ^ 53 + 1) / 2 ^ (53 - 52))) * 2 ^ (53 - 52)"
    by (intro float64_eval_ge52) simp_all
  also have "round_even ((2 ^ 53 + 1) / 2 ^ (53 - 52)) = 2 ^ 52"
    by (simp add: round_even_def)
  finally show ?thesis by simp
qed

lemma float64_one: "float64 1 = 1"
  using float64_int [of 1] by simp

lemma float64_hundred: "float64 100 = 100"
  using float64_int [of 100] by simp

lemma float64_le_one:
  assumes "0 \<le> x" "x \<le> 1"
  shows "float64 x \<le> 1"
  using float64_mono [OF assms] by (simp add: float64_one)

lemma float64_bracket:
  assumes "0 \<le> a" "a \<le> x" "x \<le> b" "float64 a = a" "float64 b = b"
  shows "a \<le> float64 x \<and> float64 x \<le> b"
proof -
  have "float64 a \<le> float64 x" using assms(1,2) by (rule float64_mono)
  moreover have "float64 x \<le> float64 b" using assms(1,2,3) by (intro float64_mono) simp_all
  ultimately show ?thesis using assms(4,5) by simp
qed

lemma float64_third: "85 / 256 \<le> float64 (1 / 3) \<and> float64 (1 / 3) \<le> 86 / 256"
proof -
  have a: "float64 (85 / 256) = 85 / 256" using float64_dyadic [of 85 8] by simp
  have b: "float64 (86 / 256) = 86 / 256" using float64_dyadic [of 86 8] by simp
  show ?thesis by (rule float64_bracket [OF _ _ _ a b]) simp_all
qed

lemma float64_nine_tenths: "float64 (9 / 10) = 8106479329266893 / 2 ^ 53"
proof -
  have "float64 (9 / 10) = of_int (round_even (9 / 10 * 2 ^ (0 + 53))) / 2 ^ (0 + 53)"
    by (intro float64_eval_lt1) simp_all
  also have "round_even (9 / 10 * 2 ^ (0 + 53)) = 8106479329266893"
    by (simp add: round_even_def)
  finally show ?thesis by simp
qed

section \<open>Properties of the performance score\<close>

lemma py_float_small:
  assumes "\<bar>k\<bar> \<le> 2 ^ 53"
  shows "py_float k = real_of_int k"
  unfolding py_float_def using assms by (rule float64_int)

lemma py_float_pos:
  assumes "0 < k"
  shows "1 \<le> py_float k"
proof -
  have "float64 1 \<le> float64 (real_of_int k)"
    using assms by (intro float64_mono) simp_all
  then show ?thesis by (simp add: py_float_def float64_one)
qed

lemma deviation_bounds:
  assumes "0 < max_deviation t"
  shows "\<forall>d \<in> set (deviations t recorded). 0 \<le> d \<and> d \<le> 1"
proof -
  have p: "0 < py_float (max_deviation t)" using py_float_pos [OF assms] by simp
  have "0 \<le> py_min_one (np_divide \<bar>x\<bar> (max_deviation t))
        \<and> py_min_one (np_divide \<bar>x\<bar> (max_deviation t)) \<le> 1" for x
  proof -
    have "0 \<le> \<bar>x\<bar> / py_float (max_deviation t)" using p by simp
    then have "0 \<le> float64 (\<bar>x\<bar> / py_float (max_deviation t))" by (rule float64_nonneg)
    then show ?thesis using assms by (simp add: np_divide_def py_min_one_def)
  qed
  then show ?thesis by (auto simp: deviations_def)
qed

lemma deviations_finite:
  assumes "0 < max_deviation t"
  shows "deviations t recorded
           = map (\<lambda>a. min 1 (float64 (\<bar>float64 (a - py_float (angle_ideal t))\<bar>
                                     / py_float (max_deviation t)))) recorded"
  using assms by (simp add: deviations_def np_divide_def py_min_one_def min_def)

lemma foldl_sum_bounds:
  assumes "\<forall>d \<in> set xs. 0 \<le> d \<and> d \<le> 1"
  shows "0 \<le> acc \<Longrightarrow> acc \<le> real (min k (2 ^ 53)) \<Longrightarrow>
     0 \<le> foldl (\<lambda>acc x. float64 (acc + x)) acc xs
     \<and> foldl (\<lambda>acc x. float64 (acc + x)) acc xs \<le> real (min (k + length xs) (2 ^ 53))"
  using assms
proof (induction xs arbitrary: acc k)
  case Nil
  then show ?case by simp
next
  case (Cons x xs)
  have x: "0 \<le> x" "x \<le> 1" and rest: "\<forall>d \<in> set xs. 0 \<le> d \<and> d \<le> 1"
    using Cons.prems(3) by simp_all
  have nn: "0 \<le> acc + x" using Cons.prems(1) x by simp
  then have lo: "0 \<le> float64 (acc + x)" by (rule float64_nonneg)
  have hi: "float64 (acc + x) \<le> real (min (Suc k) (2 ^ 53))"
  proof (cases "k < 2 ^ 53")
    case True
    then have "acc + x \<le> real (Suc k)" using Cons.prems(2) x by simp
    then have "float64 (acc + x) \<le> float64 (real (Suc k))" using nn by (intro float64_mono)
    moreover have "float64 (real (Suc k)) = real (Suc k)"
      using True float64_int [of "int (Suc k)"] by simp
    ultimately show ?thesis using True by simp
  next
    case False
    then have "acc + x \<le> 2 ^ 53 + 1" using Cons.prems(2) x by simp
    then have "float64 (acc + x) \<le> float64 (2 ^ 53 + 1)" using nn by (intro float64_mono)
    then have "float64 (acc + x) \<le> 2 ^ 53" unfolding float64_tie .
    then show ?thesis using False by simp
  qed
  from Cons.IH [OF lo hi rest] show ?case by simp
qed

lemma py_sum_bounds:
  assumes "\<forall>d \<in> set xs. 0 \<le> d \<and> d \<le> 1"
  shows "0 \<le> py_sum xs" and "py_sum xs \<le> real (min (length xs) (2 ^ 53))"
  using foldl_sum_bounds [OF assms, of 0 0] by (simp_all add: py_sum_def)

lemma py_float_length:
  assumes "0 < n"
  shows "real (min n (2 ^ 53)) \<le> py_float (int n)"
proof (cases "n \<le> 2 ^ 53")
  case True
  then have "py_float (int n) = real n" using py_float_small [of "int n"] by simp
  then show ?thesis using True by simp
next
  case False
  then have "float64 (2 ^ 53) \<le> float64 (real n)" by (intro float64_mono) simp_all
  moreover have "float64 (2 ^ 53) = 2 ^ 53" using float64_int [of "2 ^ 53"] by simp
  ultimately show ?thesis using False by (simp add: py_float_def)
qed

lemma performance_score_range:
  assumes "recorded \<noteq> []" and "0 < max_deviation t"
  shows "performance_score t recorded =
           \<lfloor>float64 (float64 (1 - float64 (py_sum (deviations t recorded)
                                             / py_float (int (length recorded)))) * 100)\<rfloor>
         \<and> 0 \<le> performance_score t recorded \<and> performance_score t recorded \<le> 100"
proof -
  define devs where "devs = deviations t recorded"
  define n where "n = length recorded"
  define avg where "avg = float64 (py_sum devs / py_float (int n))"
  have len: "length devs = n" by (simp add: devs_def n_def deviations_def)
  have n: "0 < n" using assms(1) by (simp add: n_def)
  have b: "\<forall>d \<in> set devs. 0 \<le> d \<and> d \<le> 1"
    unfolding devs_def using assms(2) by (rule deviation_bounds)
  have s0: "0 \<le> py_sum devs" and s1: "py_sum devs \<le> real (min n (2 ^ 53))"
    using py_sum_bounds [OF b] len by simp_all
  have f: "real (min n (2 ^ 53)) \<le> py_float (int n)" using n by (rule py_float_length)
  have fpos: "0 < py_float (int n)" using py_float_pos [of "int n"] n by simp
  have q0: "0 \<le> py_sum devs / py_float (int n)" using s0 fpos by simp
  have q1: "py_sum devs / py_float (int n) \<le> 1" using s1 f fpos by (simp add: divide_le_eq)
  have a0: "0 \<le> avg" unfolding avg_def using q0 by (rule float64_nonneg)
  have a1: "avg \<le> 1" unfolding avg_def using q0 q1 by (rule float64_le_one)
  define c where "c = float64 (1 - avg)"
  have c0: "0 \<le> c" unfolding c_def using a1 by (intro float64_nonneg) simp
  have c1: "c \<le> 1" unfolding c_def using a0 a1 by (intro float64_le_one) simp_all
  define p where "p = float64 (c * 100)"
  have p0: "0 \<le> p" unfolding p_def using c0 by (intro float64_nonneg) simp
  have "float64 (c * 100) \<le> float64 100" using c0 c1 by (intro float64_mono) simp_all
  then have p1: "p \<le> 100" unfolding p_def by (simp add: float64_hundred)
  have "performance_score t recorded = py_int p"
    unfolding performance_score_def Let_def p_def c_def avg_def devs_def [symmetric] len ..
  then have eq: "performance_score t recorded = \<lfloor>p\<rfloor>" using p0 by (simp add: py_int_def)
  have "0 \<le> \<lfloor>p\<rfloor>" using p0 by simp
  moreover have "\<lfloor>p\<rfloor> \<le> 100" using p1 by (simp add: floor_le_iff)
  ultimately show ?thesis
    using eq unfolding p_def c_def avg_def devs_def n_def by simp
qed

lemma foldl_sum_zeros:
  "foldl (\<lambda>acc x. float64 (acc + x)) 0 (replicate m 0) = 0"
  by (induction m) (simp_all add: float64_zero)

lemma foldl_sum_ones:
  "k + m \<le> 2 ^ 53 \<Longrightarrow>
     foldl (\<lambda>acc x. float64 (acc + x)) (real k) (replicate m 1) = real (k + m)"
proof (induction m arbitrary: k)
  case 0
  then show ?case by simp
next
  case (Suc m)
  have "float64 (real k + 1) = real (Suc k)"
    using Suc.prems float64_int [of "int (Suc k)"] by (simp add: add.commute)
  then show ?case using Suc.IH [of "Suc k"] Suc.prems by simp
qed

lemma py_sum_zeros: "py_sum (replicate m 0) = 0"
  by (simp add: py_sum_def foldl_sum_zeros)

lemma py_sum_ones: "m \<le> 2 ^ 53 \<Longrightarrow> py_sum (replicate m 1) = real m"
  using foldl_sum_ones [of 0 m] by (simp add: py_sum_def)

lemma deviations_const:
  assumes "\<forall>a \<in> set recorded.
             py_min_one (np_divide \<bar>float64 (a - py_float (angle_ideal t))\<bar> (max_deviation t)) = c"
  shows "deviations t recorded = replicate (length recorded) c"
  unfolding deviations_def using assms
  by (simp add: map_replicate_const [symmetric] cong: map_cong)

lemma performance_score_single:
  "performance_score t [a] =
     py_int (float64 (float64 (1 - float64 (float64
        (py_min_one (np_divide \<bar>float64 (a - py_float (angle_ideal t))\<bar> (max_deviation t)))))
      * 100))"
proof -
  have "py_float 1 = 1" using py_float_small [of 1] by simp
  then show ?thesis
    by (simp add: performance_score_def deviations_def py_sum_def)
qed

lemma float64_256:
  assumes "0 \<le> M" "M \<le> 25600"
  shows "float64 (real_of_int M / 256) = real_of_int M / 256"
  using assms float64_dyadic [of M 8] by simp

lemma score_chain_bracket:
  assumes "real_of_int L / 256 \<le> d" "d \<le> real_of_int H / 256" "0 \<le> L" "H \<le> 256"
  shows "real_of_int ((256 - H) * 100) / 256 \<le> float64 (float64 (1 - float64 (float64 d)) * 100)
       \<and> float64 (float64 (1 - float64 (float64 d)) * 100) \<le> real_of_int ((256 - L) * 100) / 256"
proof -
  have LH: "L \<le> H" using assms(1,2) by simp
  have L0: "0 \<le> real_of_int L / 256" using assms(3) by simp
  have eL: "float64 (real_of_int L / 256) = real_of_int L / 256"
    using assms LH by (intro float64_256) simp_all
  have eH: "float64 (real_of_int H / 256) = real_of_int H / 256"
    using assms LH by (intro float64_256) simp_all
  have d1: "real_of_int L / 256 \<le> float64 d \<and> float64 d \<le> real_of_int H / 256"
    using L0 assms(1,2) eL eH by (rule float64_bracket)
  then have d2: "real_of_int L / 256 \<le> float64 (float64 d)
                 \<and> float64 (float64 d) \<le> real_of_int H / 256"
    using L0 eL eH by (intro float64_bracket) simp_all
  define u where "u = 1 - float64 (float64 d)"
  have u: "real_of_int (256 - H) / 256 \<le> u" "u \<le> real_of_int (256 - L) / 256"
    using d2 unfolding u_def by (simp_all add: field_simps)
  have cH: "float64 (real_of_int (256 - H) / 256) = real_of_int (256 - H) / 256"
    using assms LH by (intro float64_256) simp_all
  have cL: "float64 (real_of_int (256 - L) / 256) = real_of_int (256 - L) / 256"
    using assms LH by (intro float64_256) simp_all
  have H0: "0 \<le> real_of_int (256 - H) / 256" using assms(4) by simp
  have v: "real_of_int (256 - H) / 256 \<le> float64 u \<and> float64 u \<le> real_of_int (256 - L) / 256"
    using H0 u cH cL by (rule float64_bracket)
  have w1: "real_of_int ((256 - H) * 100) / 256 \<le> float64 u * 100"
    and w2: "float64 u * 100 \<le> real_of_int ((256 - L) * 100) / 256"
    using v by simp_all
  have pH: "float64 (real_of_int ((256 - H) * 100) / 256) = real_of_int ((256 - H) * 100) / 256"
    using assms LH by (intro float64_256) simp_all
  have pL: "float64 (real_of_int ((256 - L) * 100) / 256) = real_of_int ((256 - L) * 100) / 256"
    using assms LH by (intro float64_256) simp_all
  have P0: "0 \<le> real_of_int ((256 - H) * 100) / 256" using assms(4) by simp
  show ?thesis
    unfolding u_def [symmetric] using P0 w1 w2 pH pL by (rule float64_bracket)
qed

lemma squat_deviation_90:
  "py_min_one (np_divide \<bar>float64 (90 - py_float (angle_ideal (targets squat)))\<bar>
      (max_deviation (targets squat))) = float64 (1 / 3)"
proof -
  have t: "angle_ideal (targets squat) = 110" "max_deviation (targets squat) = 60"
    by (simp_all add: squat_def max_deviation_def)
  have f: "py_float 110 = 110" "py_float 60 = 60"
    using py_float_small [of 110] py_float_small [of 60] by simp_all
  have m: "float64 (- 20) = - 20" using float64_int [of "- 20"] by simp
  have "float64 (1 / 3) < 1" using float64_third by simp
  then show ?thesis by (simp add: t f m np_divide_def py_min_one_def)
qed

lemma bicep_deviation_30:
  "py_min_one (np_divide \<bar>float64 (30 - py_float (angle_ideal (targets bicep_curl)))\<bar>
      (max_deviation (targets bicep_curl))) = float64 (6 / 7)
   \<and> 219 / 256 \<le> float64 (6 / 7) \<and> float64 (6 / 7) \<le> 220 / 256"
proof -
  have t: "angle_ideal (targets bicep_curl) = 90" "max_deviation (targets bicep_curl) = 70"
    by (simp_all add: bicep_curl_def max_deviation_def)
  have f: "py_float 90 = 90" "py_float 70 = 70"
    using py_float_small [of 90] py_float_small [of 70] by simp_all
  have m: "float64 (- 60) = - 60" using float64_int [of "- 60"] by simp
  have a: "float64 (219 / 256) = 219 / 256" using float64_256 [of 219] by simp
  have b: "float64 (220 / 256) = 220 / 256" using float64_256 [of 220] by simp
  have br: "219 / 256 \<le> float64 (6 / 7) \<and> float64 (6 / 7) \<le> 220 / 256"
    by (rule float64_bracket [OF _ _ _ a b]) simp_all
  then have "float64 (6 / 7) < 1" by simp
  then show ?thesis using br by (simp add: t f m np_divide_def py_min_one_def)
qed

lemma score_squat_164: "performance_score (targets squat) [164] = 9"
proof -
  have t: "angle_ideal (targets squat) = 110" "max_deviation (targets squat) = 60"
    by (simp_all add: squat_def max_deviation_def)
  have f: "py_float 110 = 110" "py_float 60 = 60"
    using py_float_small [of 110] py_float_small [of 60] by simp_all
  have m: "float64 54 = 54" using float64_int [of 54] by simp
  have d: "float64 (9 / 10) = 8106479329266893 / 2 ^ 53"
  proof -
    have "float64 (9 / 10) = of_int (round_even (9 / 10 * 2 ^ (0 + 53))) / 2 ^ (0 + 53)"
      by (intro float64_eval_lt1) simp_all
    also have "round_even (9 / 10 * 2 ^ (0 + 53)) = 8106479329266893"
      by (simp add: round_even_def)
    finally show ?thesis by simp
  qed
  have dev: "py_min_one (np_divide \<bar>float64 (164 - py_float (angle_ideal (targets squat)))\<bar>
      (max_deviation (targets squat))) = 8106479329266893 / 2 ^ 53"
    by (simp add: t f m np_divide_def py_min_one_def d)
  have e1: "float64 (8106479329266893 / 2 ^ 53) = 8106479329266893 / 2 ^ 53"
    using float64_dyadic [of 8106479329266893 53] by simp
  have e2: "float64 (1 - 8106479329266893 / 2 ^ 53) = 900719925474099 / 2 ^ 53"
  proof -
    have "1 - 8106479329266893 / 2 ^ 53 = (900719925474099 :: real) / 2 ^ 53" by simp
    then show ?thesis using float64_dyadic [of 900719925474099 53] by simp
  qed
  have e3: "float64 (900719925474099 / 2 ^ 53 * 100) = 5629499534213119 / 2 ^ 49"
  proof -
    have "float64 (900719925474099 / 2 ^ 53 * 100)
            = of_int (round_even (900719925474099 / 2 ^ 53 * 100 * 2 ^ (52 - 3))) / 2 ^ (52 - 3)"
      by (intro float64_eval_ge1) simp_all
    also have "round_even (900719925474099 / 2 ^ 53 * 100 * 2 ^ (52 - 3)) = 5629499534213119"
      by (simp add: round_even_def)
    finally show ?thesis by simp
  qed
  show ?thesis
    unfolding performance_score_single dev e1 e2 e3 by (simp add: py_int_def)
qed

lemma score_bicep_0_27: "performance_score (targets bicep_curl) [0, 0, 0, 0, 27] = 1"
proof -
  have t: "angle_ideal (targets bicep_curl) = 90" "max_deviation (targets bicep_curl) = 70"
    by (simp_all add: bicep_curl_def max_deviation_def)
  have f: "py_float 90 = 90" "py_float 70 = 70" "py_float 5 = 5"
    using py_float_small [of 90] py_float_small [of 70] py_float_small [of 5] by simp_all
  have m: "float64 (- 90) = - 90" "float64 (- 63) = - 63"
    using float64_int [of "- 90"] float64_int [of "- 63"] by simp_all
  have "float64 1 \<le> float64 (9 / 7)" by (intro float64_mono) simp_all
  then have big: "\<not> float64 (9 / 7) < 1" by (simp add: float64_one)
  have small: "float64 (9 / 10) < 1" unfolding float64_nine_tenths by simp
  have devs: "deviations (targets bicep_curl) [0, 0, 0, 0, 27]
                = [1, 1, 1, 1, 8106479329266893 / 2 ^ 53]"
    using big small
    by (simp add: deviations_def t f m np_divide_def py_min_one_def float64_nine_tenths)
  have i: "float64 1 = 1" "float64 2 = 2" "float64 3 = 3" "float64 4 = 4"
    using float64_int [of 1] float64_int [of 2] float64_int [of 3] float64_int [of 4]
    by simp_all
  have s5: "float64 (4 + 8106479329266893 / 2 ^ 53) = 5516909543528858 / 2 ^ 50"
  proof -
    have "float64 (4 + 8106479329266893 / 2 ^ 53)
            = of_int (round_even ((4 + 8106479329266893 / 2 ^ 53) * 2 ^ (52 - 2))) / 2 ^ (52 - 2)"
      by (intro float64_eval_ge1) simp_all
    also have "round_even ((4 + 8106479329266893 / 2 ^ 53) * 2 ^ (52 - 2)) = 5516909543528858"
      by (simp add: round_even_def)
    finally show ?thesis by simp
  qed
  have sum: "py_sum [1, 1, 1, 1, 8106479329266893 / 2 ^ 53] = 5516909543528858 / 2 ^ 50"
    using s5 by (simp add: py_sum_def i)
  have avg: "float64 (5516909543528858 / 2 ^ 50 / 5) = 8827055269646173 / 2 ^ 53"
  proof -
    have "float64 (5516909543528858 / 2 ^ 50 / 5)
            = of_int (round_even (5516909543528858 / 2 ^ 50 / 5 * 2 ^ (0 + 53))) / 2 ^ (0 + 53)"
      by (intro float64_eval_lt1) simp_all
    also have "round_even (5516909543528858 / 2 ^ 50 / 5 * 2 ^ (0 + 53)) = 8827055269646173"
      by (simp add: round_even_def)
    finally show ?thesis by simp
  qed
  have c: "float64 (1 - 8827055269646173 / 2 ^ 53) = 180143985094819 / 2 ^ 53"
  proof -
    have "1 - 8827055269646173 / 2 ^ 53 = (180143985094819 :: real) / 2 ^ 53" by simp
    then show ?thesis using float64_dyadic [of 180143985094819 53] by simp
  qed
  have p: "float64 (180143985094819 / 2 ^ 53 * 100) = 9007199254740950 / 2 ^ 52"
  proof -
    have "180143985094819 / 2 ^ 53 * 100 = (4503599627370475 :: real) / 2 ^ 51" by simp
    then show ?thesis using float64_dyadic [of 4503599627370475 51] by simp
  qed
  have "performance_score (targets bicep_curl) [0, 0, 0, 0, 27]
          = py_int (float64 (float64 (1 - float64 (5516909543528858 / 2 ^ 50 / 5)) * 100))"
    unfolding performance_score_def Let_def devs sum by (simp add: f)
  then show ?thesis unfolding avg c p by (simp add: py_int_def)
qed

text \<open>
  C3, as the specification states it, fails: the source converts with \<^verbatim>\<open>int\<close>, which
  truncates, and does not round. A squat session (\<open>ideal = 110\<close>, \<open>max_deviation = 60\<close>)
  whose only frame shows a right angle records the single smoothed angle 90; its
  deviation is \<open>20/60\<close>, the source gives \<open>int(66.66\<dots>) = 66\<close>, rounding gives 67.
\<close>

theorem performance_score_truncates:
  "session_angles (process_angle squat (calculate_angle (1, 0) (0, 0) (0, 1))
       (start_camera ''squat'')) = [90]
   \<and> 0 < max_deviation (targets squat) \<and> [90 :: real] \<noteq> []
   \<and> performance_score (targets squat) [90] = 66
   \<and> spec_performance_score (targets squat) [90] = 67"
proof -
  have b: "real_of_int 85 / 256 \<le> float64 (1 / 3)" "float64 (1 / 3) \<le> real_of_int 86 / 256"
    using float64_third by simp_all
  from score_chain_bracket [OF b]
  have lo: "66 \<le> float64 (float64 (1 - float64 (float64 (float64 (1 / 3)))) * 100)"
    and hi: "float64 (float64 (1 - float64 (float64 (float64 (1 / 3)))) * 100) < 67"
    by simp_all
  then have "\<lfloor>float64 (float64 (1 - float64 (float64 (float64 (1 / 3)))) * 100)\<rfloor> = 66"
    by (simp add: floor_eq_iff)
  moreover have "0 \<le> float64 (float64 (1 - float64 (float64 (float64 (1 / 3)))) * 100)"
    using lo by simp
  ultimately have s: "performance_score (targets squat) [90] = 66"
    unfolding performance_score_single squat_deviation_90 by (simp add: py_int_def)
  have r: "spec_performance_score (targets squat) [90] = 67"
    by (simp add: spec_performance_score_def spec_deviation_def max_deviation_def squat_def
          round_def)
  have "calculate_angle (1, 0) (0, 0) (0, 1) = 90"
    by (simp add: calculate_angle_def arctan2_def)
  then have a: "session_angles (process_angle squat (calculate_angle (1, 0) (0, 0) (0, 1))
       (start_camera ''squat'')) = [90]"
    by (simp add: process_angle_buffer start_camera_def deque_append_def buffer_average_def)
  show ?thesis using a s r by (simp add: max_deviation_def squat_def)
qed

text \<open>
  C3 (amended): for every non-empty list of recorded smoothed angles and every profile
  with \<open>max_deviation > 0\<close>, each sample's deviation is
  \<open>min(1.0, |angle - ideal| / max_deviation)\<close> and the performance score is
  \<open>(1 - mean(deviation)) \<cdot> 100\<close>, every operation carried out in float64 and the product
  truncated to an integer by \<^verbatim>\<open>int\<close> (not rounded to the nearest); it lies in
  \<open>[0, 100]\<close> without any clamping. The truncation acts on the rounded product: the
  squat session \<open>[164]\<close> scores 9 and the bicep-curl session \<open>[0, 0, 0, 0, 27]\<close> scores 1,
  where exact arithmetic would give 10 and 2.
\<close>

theorem performance_score_floor:
  assumes "recorded \<noteq> []" and "0 < max_deviation t"
  shows "deviations t recorded
           = map (\<lambda>a. min 1 (float64 (\<bar>float64 (a - py_float (angle_ideal t))\<bar>
                                     / py_float (max_deviation t)))) recorded
         \<and> performance_score t recorded =
           \<lfloor>float64 (float64 (1 - float64 (py_sum (deviations t recorded)
                                             / py_float (int (length recorded)))) * 100)\<rfloor>
         \<and> 0 \<le> performance_score t recorded \<and> performance_score t recorded \<le> 100
         \<and> performance_score (targets squat) [164] = 9
         \<and> performance_score (targets bicep_curl) [0, 0, 0, 0, 27] = 1"
  using performance_score_range [OF assms] deviations_finite [OF assms(2), of recorded]
    score_squat_164 score_bicep_0_27
  by blast

theorem performance_score_floor_witness:
  "[91, 20 :: real] \<noteq> [] \<and> 0 < max_deviation (targets bicep_curl)
   \<and> 0 \<le> performance_score (targets bicep_curl) [91, 20]
   \<and> performance_score (targets bicep_curl) [91, 20] \<le> 100"
proof -
  have a: "[91, 20 :: real] \<noteq> []" by simp
  have b: "0 < max_deviation (targets bicep_curl)"
    by (simp add: max_deviation_def bicep_curl_def)
  from performance_score_floor [OF a b] a b show ?thesis by blast
qed

text \<open>
  C5, as the specification states it, fails: the deviation is normalised by the larger
  of the two distances from the ideal angle, so the nearer bound does not reach
  deviation 1. On the bicep curl (\<open>min = 30\<close>, \<open>ideal = 90\<close>, \<open>max = 160\<close>) a session whose
  only angle is \<open>angle_min\<close> scores \<open>int((1 - 60/70) \<cdot> 100) = 14\<close>, not 0.
\<close>

theorem angle_min_session_scores_14:
  "angle_min (targets bicep_curl) < angle_ideal (targets bicep_curl)
   \<and> angle_ideal (targets bicep_curl) < angle_max (targets bicep_curl)
   \<and> performance_score (targets bicep_curl) [real_of_int (angle_min (targets bicep_curl))] = 14"
proof -
  have b: "real_of_int 219 / 256 \<le> float64 (6 / 7)" "float64 (6 / 7) \<le> real_of_int 220 / 256"
    using bicep_deviation_30 by simp_all
  from score_chain_bracket [OF b]
  have lo: "14 \<le> float64 (float64 (1 - float64 (float64 (float64 (6 / 7)))) * 100)"
    and hi: "float64 (float64 (1 - float64 (float64 (float64 (6 / 7)))) * 100) < 15"
    by simp_all
  then have "\<lfloor>float64 (float64 (1 - float64 (float64 (float64 (6 / 7)))) * 100)\<rfloor> = 14"
    by (simp add: floor_eq_iff)
  moreover have "0 \<le> float64 (float64 (1 - float64 (float64 (float64 (6 / 7)))) * 100)"
    using lo by simp
  moreover have "angle_min (targets bicep_curl) = 30" by (simp add: bicep_curl_def)
  ultimately have "performance_score (targets bicep_curl) [real_of_int (angle_min (targets bicep_curl))] = 14"
    unfolding performance_score_single using bicep_deviation_30 by (simp add: py_int_def)
  then show ?thesis by (simp add: bicep_curl_def)
qed

text \<open>
  C5 (amended): for every profile with \<open>0 \<le> angle_min < angle_ideal < angle_max \<le> 2^53\<close>
  and every non-empty session of at most \<open>2^53\<close> recorded angles: if every recorded
  smoothed angle equals \<open>angle_ideal\<close> the score is 100; if every recorded angle equals a
  bound (\<open>angle_min\<close> or \<open>angle_max\<close>) whose distance from \<open>angle_ideal\<close> is
  \<open>max_deviation\<close>, the score is 0. (Up to \<open>2^53\<close> integers are exact in float64.)
\<close>

theorem performance_score_extremes:
  assumes "0 \<le> angle_min t" and "angle_min t < angle_ideal t"
    and "angle_ideal t < angle_max t" and "angle_max t \<le> 2 ^ 53"
    and "recorded \<noteq> []" and "length recorded \<le> 2 ^ 53"
  shows "((\<forall>a \<in> set recorded. a = real_of_int (angle_ideal t))
            \<longrightarrow> performance_score t recorded = 100)
    \<and> ((\<forall>a \<in> set recorded. (a = real_of_int (angle_min t) \<or> a = real_of_int (angle_max t))
            \<and> \<bar>a - real_of_int (angle_ideal t)\<bar> = real_of_int (max_deviation t))
          \<longrightarrow> performance_score t recorded = 0)"
proof -
  define n where "n = length recorded"
  have n: "0 < n" "n \<le> 2 ^ 53" using assms(5,6) by (simp_all add: n_def)
  have md: "0 < max_deviation t" "max_deviation t \<le> 2 ^ 53"
    using assms(1-4) by (simp_all add: max_deviation_def)
  have ideal: "py_float (angle_ideal t) = real_of_int (angle_ideal t)"
    using assms(1-4) by (intro py_float_small) simp
  have fmd: "py_float (max_deviation t) = real_of_int (max_deviation t)"
    using md by (intro py_float_small) simp
  have fn: "py_float (int n) = real n"
    using n py_float_small [of "int n"] by simp
  have score: "performance_score t recorded
                 = py_int (float64 (float64 (1 - float64 (py_sum (replicate n c) / real n)) * 100))"
    if "deviations t recorded = replicate n c" for c
    unfolding performance_score_def Let_def that by (simp add: fn)
  have at_ideal: "performance_score t recorded = 100"
    if h: "\<forall>a \<in> set recorded. a = real_of_int (angle_ideal t)"
  proof -
    have "\<forall>a \<in> set recorded.
            py_min_one (np_divide \<bar>float64 (a - py_float (angle_ideal t))\<bar> (max_deviation t)) = 0"
      using h md by (simp add: ideal float64_zero np_divide_def py_min_one_def)
    then have "deviations t recorded = replicate n 0"
      unfolding n_def by (rule deviations_const)
    from score [OF this] show ?thesis
      by (simp add: py_sum_zeros float64_zero float64_one float64_hundred py_int_def)
  qed
  have at_far: "performance_score t recorded = 0"
    if h: "\<forall>a \<in> set recorded. (a = real_of_int (angle_min t) \<or> a = real_of_int (angle_max t))
            \<and> \<bar>a - real_of_int (angle_ideal t)\<bar> = real_of_int (max_deviation t)"
  proof -
    have one: "py_min_one (np_divide \<bar>float64 (a - py_float (angle_ideal t))\<bar> (max_deviation t)) = 1"
      if a: "a \<in> set recorded" for a
    proof -
      from h a have d: "\<bar>a - real_of_int (angle_ideal t)\<bar> = real_of_int (max_deviation t)"
        by blast
      then have "a - real_of_int (angle_ideal t) = real_of_int (max_deviation t)
                 \<or> a - real_of_int (angle_ideal t) = real_of_int (- max_deviation t)"
        by (simp add: abs_if split: if_splits)
      then have "float64 (a - real_of_int (angle_ideal t)) = a - real_of_int (angle_ideal t)"
        using md float64_int [of "max_deviation t"] float64_int [of "- max_deviation t"]
        by auto
      then have "\<bar>float64 (a - py_float (angle_ideal t))\<bar> = real_of_int (max_deviation t)"
        using d by (simp add: ideal)
      then show ?thesis
        using md by (simp add: np_divide_def py_min_one_def fmd float64_one)
    qed
    then have "deviations t recorded = replicate n 1"
      unfolding n_def by (intro deviations_const) blast
    from score [OF this] show ?thesis
      using n by (simp add: py_sum_ones float64_zero float64_one py_int_def)
  qed
  show ?thesis using at_ideal at_far by blast
qed

theorem performance_score_extremes_witness:
  "0 \<le> angle_min (targets squat)
   \<and> angle_min (targets squat) < angle_ideal (targets squat)
   \<and> angle_ideal (targets squat) < angle_max (targets squat)
   \<and> angle_max (targets squat) \<le> 2 ^ 53
   \<and> performance_score (targets squat) [110, 110, 110] = 100
   \<and> \<bar>170 - real_of_int (angle_ideal (targets squat))\<bar> = real_of_int (max_deviation (targets squat))
   \<and> performance_score (targets squat) [170, 170] = 0"
proof -
  have t: "angle_min (targets squat) = 70" "angle_ideal (targets squat) = 110"
    "angle_max (targets squat) = 170" "max_deviation (targets squat) = 60"
    by (simp_all add: squat_def max_deviation_def)
  have a: "0 \<le> angle_min (targets squat)"
    and b: "angle_min (targets squat) < angle_ideal (targets squat)"
    and c: "angle_ideal (targets squat) < angle_max (targets squat)"
    and d: "angle_max (targets squat) \<le> 2 ^ 53"
    by (simp_all add: t)
  have i: "performance_score (targets squat) [110, 110, 110] = 100"
    using performance_score_extremes [OF a b c d, of "[110, 110, 110]"] by (simp add: t)
  have f: "performance_score (targets squat) [170, 170] = 0"
    using performance_score_extremes [OF a b c d, of "[170, 170]"] by (simp add: t)
  show ?thesis using a b c d i f by (simp add: t)
qed

section \<open>Properties of the repetition tracking\<close>

lemma feed_angles_append:
  "feed_angles t s (xs @ ys) = feed_angles t (feed_angles t s xs) ys"
  by (induction xs arbitrary: s) simp_all

lemma track_rep_first:
  assumes "prev_angle s = None"
  shows "track_rep t x s = s\<lparr>direction := Some NoDir, prev_angle := Some x\<rparr>"
  using assms by (simp add: track_rep_def)

lemma bicep_step:
  assumes "current_exercise s = ''bicep curl''" and "prev_angle s = Some p"
  shows "current_exercise (track_rep (targets bicep_curl) x s) = ''bicep curl''"
    and "prev_angle (track_rep (targets bicep_curl) x s) = Some x"
    and "direction (track_rep (targets bicep_curl) x s) = Some (if p < x then Up else Down)"
    and "session_reps (track_rep (targets bicep_curl) x s) =
           (if direction s = Some Down \<and> p < x \<and> p < 40 \<and> \<not> rep_counted s
            then Suc (session_reps s) else session_reps s)"
    and "rep_counted (track_rep (targets bicep_curl) x s) =
           (if direction s = Some Down \<and> p < x \<and> p < 40 then True
            else if 140 < x then False else rep_counted s)"
  using assms
  by (simp_all add: track_rep_def register_rep_def bicep_curl_def Let_def)

lemma high_phase:
  assumes "\<forall>x \<in> set xs. 40 \<le> x"
  shows "current_exercise s = ''bicep curl'' \<Longrightarrow> prev_angle s = Some p \<Longrightarrow> 40 \<le> p \<Longrightarrow>
     current_exercise (feed_angles (targets bicep_curl) s xs) = ''bicep curl''
     \<and> session_reps (feed_angles (targets bicep_curl) s xs) = session_reps s
     \<and> prev_angle (feed_angles (targets bicep_curl) s xs) = Some (last (p # xs))
     \<and> 40 \<le> last (p # xs)
     \<and> (\<not> rep_counted s \<longrightarrow> \<not> rep_counted (feed_angles (targets bicep_curl) s xs))"
  using assms
proof (induction xs arbitrary: s p)
  case Nil
  then show ?case by simp
next
  case (Cons x xs)
  let ?s1 = "track_rep (targets bicep_curl) x s"
  note st = bicep_step [OF Cons.prems(1,2), of x]
  have x: "40 \<le> x" and rest: "\<forall>y \<in> set xs. 40 \<le> y" using Cons.prems(4) by simp_all
  have reps: "session_reps ?s1 = session_reps s" using st(4) Cons.prems(3) by simp
  have cnt: "\<not> rep_counted s \<longrightarrow> \<not> rep_counted ?s1" using st(5) Cons.prems(3) by simp
  from Cons.IH [OF st(1) st(2) x rest] reps cnt
  show ?case by simp
qed

lemma enter_low:
  assumes "current_exercise s = ''bicep curl''" "prev_angle s = Some p" "40 \<le> p"
    "\<not> rep_counted s" "m0 < 40"
  shows "pending (track_rep (targets bicep_curl) m0 s) (session_reps s)"
  using bicep_step [OF assms(1,2), of m0] assms(3,4,5)
  by (simp add: pending_def)

lemma low_step:
  assumes "x \<le> 140" and "pending s n \<or> counted_once s n"
  shows "pending (track_rep (targets bicep_curl) x s) n
         \<or> counted_once (track_rep (targets bicep_curl) x s) n"
  using assms(2)
proof
  assume p: "pending s n"
  then obtain q where q: "prev_angle s = Some q" "q < 40" and b: "current_exercise s = ''bicep curl''"
    by (auto simp: pending_def)
  note st = bicep_step [OF b q(1), of x]
  show ?thesis
  proof (cases "q < x")
    case True
    then have "counted_once (track_rep (targets bicep_curl) x s) n"
      using st p q by (simp add: counted_once_def pending_def)
    then show ?thesis ..
  next
    case False
    then have "pending (track_rep (targets bicep_curl) x s) n"
      using st p q assms(1) by (simp add: pending_def)
    then show ?thesis ..
  qed
next
  assume c: "counted_once s n"
  then obtain q where q: "prev_angle s = Some q" and b: "current_exercise s = ''bicep curl''"
    by (auto simp: counted_once_def)
  note st = bicep_step [OF b q, of x]
  have "counted_once (track_rep (targets bicep_curl) x s) n"
    using st c assms(1) by (simp add: counted_once_def)
  then show ?thesis ..
qed

lemma low_phase:
  assumes "\<forall>x \<in> set M. x \<le> 140"
  shows "pending s n \<or> counted_once s n \<Longrightarrow>
     pending (feed_angles (targets bicep_curl) s M) n
     \<or> counted_once (feed_angles (targets bicep_curl) s M) n"
  using assms
proof (induction M arbitrary: s)
  case Nil
  then show ?case by simp
next
  case (Cons x M)
  then have "x \<le> 140" and rest: "\<forall>y \<in> set M. y \<le> 140" by simp_all
  then have "pending (track_rep (targets bicep_curl) x s) n
         \<or> counted_once (track_rep (targets bicep_curl) x s) n"
    using Cons.prems(1) by (intro low_step)
  from Cons.IH [OF this rest] show ?case by simp
qed

lemma exit_step:
  assumes "40 \<le> y" and "pending s n \<or> counted_once s n"
  shows "current_exercise (track_rep (targets bicep_curl) y s) = ''bicep curl''
     \<and> prev_angle (track_rep (targets bicep_curl) y s) = Some y
     \<and> session_reps (track_rep (targets bicep_curl) y s) = Suc n"
  using assms(2)
proof
  assume p: "pending s n"
  then obtain q where q: "prev_angle s = Some q" "q < 40" and b: "current_exercise s = ''bicep curl''"
    by (auto simp: pending_def)
  show ?thesis
    using bicep_step [OF b q(1), of y] p q assms(1) by (simp add: pending_def)
next
  assume c: "counted_once s n"
  then obtain q where q: "prev_angle s = Some q" and b: "current_exercise s = ''bicep curl''"
    by (auto simp: counted_once_def)
  show ?thesis
    using bicep_step [OF b q, of y] c by (simp add: counted_once_def)
qed

lemma cycle_start:
  assumes "current_exercise s = ''bicep curl''"
    and "(prev_angle s = None \<and> \<not> rep_counted s) \<or> (\<exists>p. prev_angle s = Some p \<and> 40 \<le> p)"
  shows "current_exercise (track_rep (targets bicep_curl) 160 s) = ''bicep curl''
     \<and> prev_angle (track_rep (targets bicep_curl) 160 s) = Some 160
     \<and> \<not> rep_counted (track_rep (targets bicep_curl) 160 s)
     \<and> session_reps (track_rep (targets bicep_curl) 160 s) = session_reps s"
  using assms(2)
proof
  assume "prev_angle s = None \<and> \<not> rep_counted s"
  then show ?thesis using assms(1) by (simp add: track_rep_first)
next
  assume "\<exists>p. prev_angle s = Some p \<and> 40 \<le> p"
  then obtain p where p: "prev_angle s = Some p" "40 \<le> p" by blast
  show ?thesis using bicep_step [OF assms(1) p(1), of 160] p(2) by simp
qed

lemma one_cycle:
  assumes H1: "\<forall>x \<in> set H1. 40 \<le> x" and m0: "m0 < 40"
    and M: "\<forall>x \<in> set M. x \<le> 140" and H2: "\<forall>x \<in> set H2. 40 \<le> x"
    and b: "current_exercise s = ''bicep curl''"
    and st: "(prev_angle s = None \<and> \<not> rep_counted s) \<or> (\<exists>p. prev_angle s = Some p \<and> 40 \<le> p)"
  shows "current_exercise (feed_angles (targets bicep_curl) s (noisy_cycle H1 m0 M H2)) = ''bicep curl''
     \<and> prev_angle (feed_angles (targets bicep_curl) s (noisy_cycle H1 m0 M H2)) = Some 160
     \<and> session_reps (feed_angles (targets bicep_curl) s (noisy_cycle H1 m0 M H2)) = Suc (session_reps s)"
proof -
  let ?T = "targets bicep_curl"
  define s1 where "s1 = track_rep ?T 160 s"
  define s2 where "s2 = feed_angles ?T s1 H1"
  define s3 where "s3 = track_rep ?T m0 s2"
  define s4 where "s4 = feed_angles ?T s3 M"
  define s5 where "s5 = feed_angles ?T s4 (H2 @ [160])"
  have run: "feed_angles ?T s (noisy_cycle H1 m0 M H2) = s5"
    by (simp add: noisy_cycle_def feed_angles_append s1_def s2_def s3_def s4_def s5_def)
  have f1: "current_exercise s1 = ''bicep curl''" "prev_angle s1 = Some 160"
    "\<not> rep_counted s1" "session_reps s1 = session_reps s"
    unfolding s1_def using cycle_start [OF b st] by simp_all
  have f2: "current_exercise s2 = ''bicep curl''" "session_reps s2 = session_reps s"
    "prev_angle s2 = Some (last (160 # H1))" "40 \<le> last (160 # H1)" "\<not> rep_counted s2"
    unfolding s2_def using high_phase [OF H1 f1(1) f1(2)] f1(3,4) by simp_all
  have f3: "pending s3 (session_reps s)"
    unfolding s3_def using enter_low [OF f2(1) f2(3) f2(4) f2(5) m0] f2(2) by simp
  then have f4: "pending s4 (session_reps s) \<or> counted_once s4 (session_reps s)"
    unfolding s4_def by (intro low_phase [OF M]) simp
  obtain y ys where ys: "H2 @ [160] = y # ys" by (cases "H2 @ [160]") simp_all
  have all: "\<forall>x \<in> set (y # ys). 40 \<le> x"
    unfolding ys [symmetric] using H2 by simp
  then have y: "40 \<le> y" and rest: "\<forall>x \<in> set ys. 40 \<le> x" by simp_all
  have lst: "last (y # ys) = 160"
    unfolding ys [symmetric] by simp
  note e = exit_step [OF y f4]
  have f5: "current_exercise s5 = ''bicep curl''" "session_reps s5 = Suc (session_reps s)"
    "prev_angle s5 = Some 160"
    unfolding s5_def ys using high_phase [OF rest, of "track_rep ?T y s4" y] e y lst by simp_all
  show ?thesis unfolding run using f5 by simp
qed

lemma counted_persist:
  assumes "\<forall>x \<in> set ys. x \<le> 140"
  shows "current_exercise s = ''bicep curl'' \<Longrightarrow> rep_counted s \<Longrightarrow>
     rep_counted (feed_angles (targets bicep_curl) s ys)"
  using assms
proof (induction ys arbitrary: s)
  case Nil
  then show ?case by simp
next
  case (Cons x ys)
  let ?s1 = "track_rep (targets bicep_curl) x s"
  have x: "x \<le> 140" and rest: "\<forall>y \<in> set ys. y \<le> 140" using Cons.prems(3) by simp_all
  have "current_exercise ?s1 = ''bicep curl'' \<and> rep_counted ?s1"
  proof (cases "prev_angle s")
    case None
    then show ?thesis using Cons.prems(1,2) by (simp add: track_rep_first)
  next
    case (Some p)
    show ?thesis using bicep_step [OF Cons.prems(1) Some, of x] Cons.prems(2) x by simp
  qed
  then show ?case using Cons.IH [OF _ _ rest, of ?s1] by simp
qed

lemma bicep_preserved:
  "current_exercise s = ''bicep curl'' \<Longrightarrow>
     current_exercise (feed_angles (targets bicep_curl) s xs) = ''bicep curl''"
proof (induction xs arbitrary: s)
  case Nil
  then show ?case by simp
next
  case (Cons x xs)
  have "current_exercise (track_rep (targets bicep_curl) x s) = ''bicep curl''"
  proof (cases "prev_angle s")
    case None
    then show ?thesis using Cons.prems by (simp add: track_rep_first)
  next
    case (Some p)
    show ?thesis using bicep_step [OF Cons.prems Some, of x] by simp
  qed
  then show ?case using Cons.IH by simp
qed

lemma count_needs_uncounted:
  assumes "current_exercise s = ''bicep curl''"
    and "session_reps (track_rep (targets bicep_curl) x s) = Suc (session_reps s)"
  shows "\<not> rep_counted s \<and> rep_counted (track_rep (targets bicep_curl) x s)"
proof (cases "prev_angle s")
  case None
  then show ?thesis using assms by (simp add: track_rep_first)
next
  case (Some p)
  show ?thesis using bicep_step [OF assms(1) Some, of x] assms(2) by (simp split: if_splits)
qed

lemma feed_take_Suc:
  assumes "k < length xs"
  shows "feed_angles t s (take (Suc k) xs) = track_rep t (xs ! k) (feed_angles t s (take k xs))"
  using assms by (simp add: take_Suc_conv_app_nth feed_angles_append)

lemma reset_between_counts:
  assumes b: "current_exercise s = ''bicep curl''" and ik: "i < k" and k: "k < length xs"
    and ci: "session_reps (feed_angles (targets bicep_curl) s (take (Suc i) xs))
               = Suc (session_reps (feed_angles (targets bicep_curl) s (take i xs)))"
    and ck: "session_reps (feed_angles (targets bicep_curl) s (take (Suc k) xs))
               = Suc (session_reps (feed_angles (targets bicep_curl) s (take k xs)))"
  shows "\<exists>j. i < j \<and> j < k \<and> 140 < xs ! j"
proof (rule ccontr)
  assume "\<not> ?thesis"
  then have low: "\<forall>j. i < j \<and> j < k \<longrightarrow> xs ! j \<le> 140" by (meson not_less)
  let ?T = "targets bicep_curl"
  let ?si = "feed_angles ?T s (take (Suc i) xs)"
  let ?mid = "drop (Suc i) (take k xs)"
  have i: "i < length xs" using ik k by simp
  have bi: "current_exercise (feed_angles ?T s (take i xs)) = ''bicep curl''"
    and bk: "current_exercise (feed_angles ?T s (take k xs)) = ''bicep curl''"
    and bsi: "current_exercise ?si = ''bicep curl''"
    using b by (simp_all only: bicep_preserved)
  have rsi: "rep_counted ?si"
    using count_needs_uncounted [OF bi, of "xs ! i"] ci feed_take_Suc [OF i, of ?T s] by simp
  have mid: "\<forall>x \<in> set ?mid. x \<le> 140"
  proof
    fix x assume "x \<in> set ?mid"
    then obtain n where n: "n < length ?mid" "?mid ! n = x" by (auto simp: in_set_conv_nth)
    then have "Suc i + n < k" using k by simp
    moreover from this have "?mid ! n = xs ! (Suc i + n)" using k by simp
    ultimately show "x \<le> 140" using low n by auto
  qed
  have "rep_counted (feed_angles ?T ?si ?mid)"
    using mid bsi rsi by (rule counted_persist)
  moreover have "take k xs = take (Suc i) xs @ ?mid"
  proof -
    have "take (Suc i) (take k xs) = take (Suc i) xs" using ik by (simp add: min_def)
    then show ?thesis using append_take_drop_id [of "Suc i" "take k xs"] by simp
  qed
  ultimately have "rep_counted (feed_angles ?T s (take k xs))"
    by (metis feed_angles_append)
  moreover have "\<not> rep_counted (feed_angles ?T s (take k xs))"
    using count_needs_uncounted [OF bk, of "xs ! k"] ck feed_take_Suc [OF k, of ?T s] by simp
  ultimately show False by simp
qed

text \<open>
  C6: on the bicep-curl profile (\<open>min = 30\<close>, \<open>max = 160\<close>; a reversal counts below 40,
  the reset threshold is 140), from a fresh session, every cycle that starts at 160,
  comes down below 40 and goes back up to 160 registers exactly one repetition, and two
  such cycles in a row register exactly two, whatever small reversals the samples make
  on the way (the shape \<open>noisy_cycle\<close>). In any sequence of smoothed angles, between two
  frames that each register a repetition there is a frame whose angle is above the reset
  threshold 140: the \<open>rep_counted\<close> flag permits at most one count between consecutive
  crossings of the reset threshold.
\<close>

theorem bicep_curl_cycles:
  assumes "\<forall>x \<in> set H1. 40 \<le> x" and "m0 < 40"
    and "\<forall>x \<in> set M. x \<le> 140" and "\<forall>x \<in> set H2. 40 \<le> x"
    and "\<forall>x \<in> set H1'. 40 \<le> x" and "m0' < 40"
    and "\<forall>x \<in> set M'. x \<le> 140" and "\<forall>x \<in> set H2'. 40 \<le> x"
  shows "session_reps (feed_angles (targets bicep_curl) (start_camera ''bicep curl'')
            (noisy_cycle H1 m0 M H2)) = 1
    \<and> session_reps (feed_angles (targets bicep_curl) (start_camera ''bicep curl'')
            (noisy_cycle H1 m0 M H2 @ noisy_cycle H1' m0' M' H2')) = 2
    \<and> (i < k \<and> k < length xs
        \<and> session_reps (feed_angles (targets bicep_curl) (start_camera ''bicep curl'') (take (Suc i) xs))
            = Suc (session_reps (feed_angles (targets bicep_curl) (start_camera ''bicep curl'') (take i xs)))
        \<and> session_reps (feed_angles (targets bicep_curl) (start_camera ''bicep curl'') (take (Suc k) xs))
            = Suc (session_reps (feed_angles (targets bicep_curl) (start_camera ''bicep curl'') (take k xs)))
        \<longrightarrow> (\<exists>j. i < j \<and> j < k \<and> 140 < xs ! j))"
proof -
  let ?T = "targets bicep_curl"
  let ?s0 = "start_camera ''bicep curl''"
  let ?s1 = "feed_angles ?T ?s0 (noisy_cycle H1 m0 M H2)"
  have b0: "current_exercise ?s0 = ''bicep curl''" and r0: "session_reps ?s0 = 0"
    and fresh: "(prev_angle ?s0 = None \<and> \<not> rep_counted ?s0)
                 \<or> (\<exists>p. prev_angle ?s0 = Some p \<and> 40 \<le> p)"
    by (simp_all add: start_camera_def)
  note c1 = one_cycle [OF assms(1-4) b0 fresh]
  then have one: "session_reps ?s1 = 1" using r0 by simp
  have again: "(prev_angle ?s1 = None \<and> \<not> rep_counted ?s1)
                 \<or> (\<exists>p. prev_angle ?s1 = Some p \<and> 40 \<le> p)"
    using c1 by simp
  have b1: "current_exercise ?s1 = ''bicep curl''" using c1 by simp
  have two: "session_reps (feed_angles ?T ?s0 (noisy_cycle H1 m0 M H2 @ noisy_cycle H1' m0' M' H2')) = 2"
    using one_cycle [OF assms(5-8) b1 again] one by (simp add: feed_angles_append)
  have gap: "\<exists>j. i < j \<and> j < k \<and> 140 < xs ! j"
    if "i < k" "k < length xs"
      "session_reps (feed_angles ?T ?s0 (take (Suc i) xs))
            = Suc (session_reps (feed_angles ?T ?s0 (take i xs)))"
      "session_reps (feed_angles ?T ?s0 (take (Suc k) xs))
            = Suc (session_reps (feed_angles ?T ?s0 (take k xs)))"
    using reset_between_counts [OF b0 that] .
  show ?thesis using one two gap by blast
qed

theorem bicep_curl_cycles_witness:
  "list_all (\<lambda>x. 40 \<le> x) noisy_descent \<and> (38 :: real) < 40
   \<and> list_all (\<lambda>x. x \<le> 140) noisy_bottom \<and> list_all (\<lambda>x. 40 \<le> x) noisy_top
   \<and> (35 :: real) < 40
   \<and> session_reps (feed_angles (targets bicep_curl) (start_camera ''bicep curl'')
         (noisy_cycle noisy_descent 38 noisy_bottom noisy_top)) = 1
   \<and> session_reps (feed_angles (targets bicep_curl) (start_camera ''bicep curl'')
         (noisy_cycle noisy_descent 38 noisy_bottom noisy_top @ noisy_cycle [] 35 [] [])) = 2
   \<and> (2 :: nat) < 5 \<and> 5 < length short_cycles
   \<and> session_reps (feed_angles (targets bicep_curl) (start_camera ''bicep curl'') (take (Suc 2) short_cycles))
        = Suc (session_reps (feed_angles (targets bicep_curl) (start_camera ''bicep curl'') (take 2 short_cycles)))
   \<and> session_reps (feed_angles (targets bicep_curl) (start_camera ''bicep curl'') (take (Suc 5) short_cycles))
        = Suc (session_reps (feed_angles (targets bicep_curl) (start_camera ''bicep curl'') (take 5 short_cycles)))
   \<and> (\<exists>j. 2 < j \<and> j < 5 \<and> 140 < short_cycles ! j)"
proof -
  have h1: "\<forall>x \<in> set noisy_descent. 40 \<le> x" by (simp add: noisy_descent_def)
  have h2: "(38 :: real) < 40" by simp
  have h3: "\<forall>x \<in> set noisy_bottom. x \<le> 140" by (simp add: noisy_bottom_def)
  have h4: "\<forall>x \<in> set noisy_top. 40 \<le> x" by (simp add: noisy_top_def)
  have h5: "\<forall>x \<in> set ([] :: real list). 40 \<le> x" by simp
  have h6: "(35 :: real) < 40" by simp
  have h7: "\<forall>x \<in> set ([] :: real list). x \<le> 140" by simp
  have l: "(2 :: nat) < 5" "5 < length short_cycles" by (simp_all add: short_cycles_def)
  have c2: "session_reps (feed_angles (targets bicep_curl) (start_camera ''bicep curl'') (take (Suc 2) short_cycles))
        = Suc (session_reps (feed_angles (targets bicep_curl) (start_camera ''bicep curl'') (take 2 short_cycles)))"
    by (simp add: short_cycles_def start_camera_def track_rep_def register_rep_def bicep_curl_def)
  have c5: "session_reps (feed_angles (targets bicep_curl) (start_camera ''bicep curl'') (take (Suc 5) short_cycles))
        = Suc (session_reps (feed_angles (targets bicep_curl) (start_camera ''bicep curl'') (take 5 short_cycles)))"
    by (simp add: short_cycles_def start_camera_def track_rep_def register_rep_def bicep_curl_def)
  note w = bicep_curl_cycles [OF h1 h2 h3 h4 h5 h6 h7 h5, of 2 5 short_cycles]
  have lists: "list_all (\<lambda>x. 40 \<le> x) noisy_descent"
    "list_all (\<lambda>x. x \<le> 140) noisy_bottom" "list_all (\<lambda>x. 40 \<le> x) noisy_top"
    by (simp_all add: noisy_descent_def noisy_bottom_def noisy_top_def)
  show ?thesis using w lists h2 h6 l c2 c5 by blast
qed

section \<open>The first two valid frames\<close>

lemma track_rep_nodir:
  assumes "direction s = Some NoDir"
  shows "session_reps (track_rep t x s) = session_reps s"
  using assms by (simp add: track_rep_def Let_def split: option.split)

lemma track_rep_exercise:
  "current_exercise (track_rep t x s) = current_exercise s"
  by (simp add: track_rep_def register_rep_def Let_def split: option.split)

lemma process_angle_exercise:
  "current_exercise (process_angle ex a s) = current_exercise s"
  by (simp add: process_angle_def Let_def track_rep_exercise)

lemma process_angle_first:
  assumes "prev_angle s = None"
  shows "session_reps (process_angle ex a s) = session_reps s"
    and "direction (process_angle ex a s) = Some NoDir"
    and "prev_angle (process_angle ex a s)
           = Some (buffer_average (deque_append 10 (angle_buffer s) a))"
  using assms by (simp_all add: process_angle_def Let_def track_rep_first)

lemma process_angle_second:
  assumes "direction s = Some NoDir"
  shows "session_reps (process_angle ex a s) = session_reps s"
  using assms by (simp add: process_angle_def Let_def track_rep_nodir)

lemma keypoints_ge3:
  assumes "exercise_data e = Some ex"
  shows "3 \<le> length (keypoints ex)"
  using assms by (auto simp: exercise_data_def profile_defs split: if_splits)

lemma process_frame_Some:
  assumes "process_frame s (Some landmarks) = Inr s'"
  shows "\<exists>ex a. s' = process_angle ex a s"
proof -
  from assms obtain ex where ex: "exercise_data (current_exercise s) = Some ex"
    by (auto simp: process_frame_def split: option.splits)
  then have "3 \<le> length (keypoints ex)" by (rule keypoints_ge3)
  with assms ex show ?thesis
    by (auto simp: process_frame_def split: sum.splits)
qed

lemma feed_no_valid:
  "valid_frames frames = 0 \<Longrightarrow> process_camera_feed s frames = Inr s' \<Longrightarrow> s' = s"
proof (induction frames arbitrary: s)
  case Nil
  then show ?case by simp
next
  case (Cons f frames)
  then have f: "f = None" and rest: "valid_frames frames = 0"
    by (auto simp: valid_frames_def split: if_splits)
  then show ?case using Cons by (simp add: process_frame_def)
qed

lemma feed_after_first:
  "direction s = Some NoDir \<Longrightarrow> valid_frames frames \<le> 1 \<Longrightarrow>
     process_camera_feed s frames = Inr s' \<Longrightarrow> session_reps s' = session_reps s"
proof (induction frames arbitrary: s)
  case Nil
  then show ?case by simp
next
  case (Cons f frames)
  show ?case
  proof (cases f)
    case None
    then have "valid_frames frames \<le> 1" using Cons.prems(2) by (simp add: valid_frames_def)
    moreover have "process_camera_feed s frames = Inr s'"
      using Cons.prems(3) None by (simp add: process_frame_def)
    ultimately show ?thesis using Cons.IH Cons.prems(1) by blast
  next
    case (Some landmarks)
    then have rest: "valid_frames frames = 0" using Cons.prems(2) by (simp add: valid_frames_def)
    from Cons.prems(3) Some obtain s1 where s1: "process_frame s (Some landmarks) = Inr s1"
      "process_camera_feed s1 frames = Inr s'"
      by (auto split: sum.splits)
    from s1(1) obtain ex a where "s1 = process_angle ex a s"
      using process_frame_Some by blast
    then have "session_reps s1 = session_reps s"
      using Cons.prems(1) by (simp add: process_angle_second)
    moreover have "s' = s1" using feed_no_valid [OF rest s1(2)] .
    ultimately show ?thesis by simp
  qed
qed

lemma feed_from_start:
  "prev_angle s = None \<Longrightarrow> valid_frames frames \<le> 2 \<Longrightarrow>
     process_camera_feed s frames = Inr s' \<Longrightarrow>
     session_reps s' = session_reps s
     \<and> (valid_frames frames = 1 \<longrightarrow> direction s' = Some NoDir \<and> prev_angle s' \<noteq> None)"
proof (induction frames arbitrary: s)
  case Nil
  then show ?case by (simp add: valid_frames_def)
next
  case (Cons f frames)
  show ?case
  proof (cases f)
    case None
    then have "valid_frames frames \<le> 2" and v: "valid_frames (f # frames) = valid_frames frames"
      using Cons.prems(2) by (simp_all add: valid_frames_def)
    moreover have "process_camera_feed s frames = Inr s'"
      using Cons.prems(3) None by (simp add: process_frame_def)
    ultimately show ?thesis using Cons.IH [OF Cons.prems(1)] by simp
  next
    case (Some landmarks)
    then have rest: "valid_frames frames \<le> 1"
      and v: "valid_frames (f # frames) = Suc (valid_frames frames)"
      using Cons.prems(2) by (simp_all add: valid_frames_def)
    from Cons.prems(3) Some obtain s1 where s1: "process_frame s (Some landmarks) = Inr s1"
      "process_camera_feed s1 frames = Inr s'"
      by (auto split: sum.splits)
    from s1(1) obtain ex a where "s1 = process_angle ex a s"
      using process_frame_Some by blast
    then have f1: "session_reps s1 = session_reps s" "direction s1 = Some NoDir"
      "prev_angle s1 \<noteq> None"
      using Cons.prems(1) by (simp_all add: process_angle_first)
    have reps: "session_reps s' = session_reps s"
      using feed_after_first [OF f1(2) rest s1(2)] f1(1) by simp
    have "direction s' = Some NoDir \<and> prev_angle s' \<noteq> None" if "valid_frames frames = 0"
      using feed_no_valid [OF that s1(2)] f1 by simp
    then show ?thesis using reps v by simp
  qed
qed

lemma process_frame_total:
  assumes "exercise_data (current_exercise s) = Some ex"
    and "\<forall>landmarks. f = Some landmarks \<longrightarrow> 28 \<le> length landmarks"
  shows "\<exists>s'. process_frame s f = Inr s' \<and> current_exercise s' = current_exercise s"
proof (cases f)
  case None
  then show ?thesis by (simp add: process_frame_def)
next
  case (Some landmarks)
  with assms(2) have len: "28 \<le> length landmarks" by simp
  from assms(1) have "ex \<in> {bicep_curl, push_up, squat, shoulder_press}"
    by (auto simp: exercise_data_def split: if_splits)
  then have k: "3 \<le> length (keypoints ex)" "keypoints ex ! 0 < 28" "keypoints ex ! 1 < 28"
    "keypoints ex ! 2 < 28"
    by (auto simp: profile_defs)
  show ?thesis
    using Some assms(1) k len
    by (simp add: process_frame_def py_index_def process_angle_exercise)
qed

lemma process_camera_feed_total:
  assumes "\<forall>f \<in> set frames. \<forall>landmarks. f = Some landmarks \<longrightarrow> 28 \<le> length landmarks"
  shows "exercise_data (current_exercise s) = Some ex \<Longrightarrow>
     \<exists>s'. process_camera_feed s frames = Inr s'"
  using assms
proof (induction frames arbitrary: s)
  case Nil
  then show ?case by simp
next
  case (Cons f frames)
  then have f: "\<forall>landmarks. f = Some landmarks \<longrightarrow> 28 \<le> length landmarks"
    and rest: "\<forall>g \<in> set frames. \<forall>landmarks. g = Some landmarks \<longrightarrow> 28 \<le> length landmarks"
    by simp_all
  from process_frame_total [OF Cons.prems(1) f] obtain s1 where
    s1: "process_frame s f = Inr s1" "current_exercise s1 = current_exercise s" by blast
  then have "exercise_data (current_exercise s1) = Some ex" using Cons.prems(1) by simp
  from Cons.IH [OF this rest] s1(1) show ?case by simp
qed

text \<open>
  C10: for every exercise, after at most two frames with landmarks (and any number of
  frames without) the repetition count of a session is still zero; after exactly one
  such frame the stored direction is the sentinel \<^verbatim>\<open>"none"\<close> and the previous angle is
  set. For a known exercise and frames with at least 28 landmarks the loop does reach
  the end of the frames. The count is also zero when two arbitrary smoothed angles are
  fed to the tracking directly, for any exercise name and any target angles.
\<close>

theorem no_rep_in_first_two_valid_frames:
  assumes "valid_frames frames \<le> 2"
  shows "(process_camera_feed (start_camera e) frames = Inr s \<longrightarrow>
            session_reps s = 0
            \<and> (valid_frames frames = 1 \<longrightarrow> direction s = Some NoDir \<and> prev_angle s \<noteq> None))
    \<and> (exercise_data e = Some ex
        \<and> (\<forall>f \<in> set frames. \<forall>landmarks. f = Some landmarks \<longrightarrow> 28 \<le> length landmarks)
        \<longrightarrow> (\<exists>s'. process_camera_feed (start_camera e) frames = Inr s'))
    \<and> session_reps (feed_angles t (start_camera e) [x, y]) = 0"
proof -
  have p: "prev_angle (start_camera e) = None" and r: "session_reps (start_camera e) = 0"
    and c: "current_exercise (start_camera e) = e"
    by (simp_all add: start_camera_def)
  have direct: "session_reps (feed_angles t (start_camera e) [x, y]) = 0"
    using p r by (simp add: track_rep_first track_rep_nodir)
  have loop: "session_reps s = 0
            \<and> (valid_frames frames = 1 \<longrightarrow> direction s = Some NoDir \<and> prev_angle s \<noteq> None)"
    if "process_camera_feed (start_camera e) frames = Inr s"
    using feed_from_start [OF p assms that] r by simp
  have total: "\<exists>s'. process_camera_feed (start_camera e) frames = Inr s'"
    if "exercise_data e = Some ex"
      and "\<forall>f \<in> set frames. \<forall>landmarks. f = Some landmarks \<longrightarrow> 28 \<le> length landmarks"
    using process_camera_feed_total [OF that(2), of "start_camera e" ex] that(1) c by simp
  show ?thesis using direct loop total by blast
qed

theorem no_rep_in_first_two_valid_frames_witness:
  "valid_frames [Some still_pose, None, Some still_pose] \<le> 2
   \<and> exercise_data ''push-up'' = Some push_up
   \<and> 28 \<le> length still_pose
   \<and> (\<exists>s. process_camera_feed (start_camera ''push-up'') [Some still_pose, None, Some still_pose] = Inr s
          \<and> session_reps s = 0)
   \<and> valid_frames [None, Some still_pose] = 1
   \<and> (\<exists>s. process_camera_feed (start_camera ''push-up'') [None, Some still_pose] = Inr s
          \<and> session_reps s = 0 \<and> direction s = Some NoDir \<and> prev_angle s \<noteq> None)"
proof -
  have e: "exercise_data ''push-up'' = Some push_up"
    by (simp add: exercise_data_def)
  have len: "28 \<le> length still_pose"
    by (simp add: still_pose_def)
  have v3: "valid_frames [Some still_pose, None, Some still_pose] \<le> 2"
    and v2: "valid_frames [None, Some still_pose] = 1" "valid_frames [None, Some still_pose] \<le> 2"
    by (simp_all add: valid_frames_def)
  have wf3: "\<forall>f \<in> set [Some still_pose, None, Some still_pose].
               \<forall>landmarks. f = Some landmarks \<longrightarrow> 28 \<le> length landmarks"
    and wf2: "\<forall>f \<in> set [None, Some still_pose].
               \<forall>landmarks. f = Some landmarks \<longrightarrow> 28 \<le> length landmarks"
    using len by simp_all
  note w3 = no_rep_in_first_two_valid_frames [OF v3, where e = "''push-up''" and ex = push_up]
  note w2 = no_rep_in_first_two_valid_frames [OF v2(2), where e = "''push-up''" and ex = push_up]
  from w3 e wf3 obtain s3 where
    s3: "process_camera_feed (start_camera ''push-up'') [Some still_pose, None, Some still_pose] = Inr s3"
    by blast
  with w3 have r3: "session_reps s3 = 0" by blast
  from w2 e wf2 obtain s2 where
    s2: "process_camera_feed (start_camera ''push-up'') [None, Some still_pose] = Inr s2"
    by blast
  with w2 v2(1) have r2: "session_reps s2 = 0 \<and> direction s2 = Some NoDir \<and> prev_angle s2 \<noteq> None"
    by blast
  show ?thesis using e len v3 v2(1) s3 r3 s2 r2 by blast
qed

end
